theory Spec2Isabelle
  imports Main "HOL-Library.Word" "HOL-Library.Sublist"
begin

unbundle bit_operations_syntax

section \<open>JavaScript strings, buffers and the library functions the debugger calls\<close>

text \<open>
  A JavaScript string is a sequence of UTF-16 code units; a Node \<open>Buffer\<close> is a
  sequence of bytes. The debugger measures the body of an outgoing frame in bytes
  (\<open>Buffer.byteLength\<close>) and the body of an incoming frame in code units
  (\<open>messageBuffer.length\<close>, \<open>slice\<close>), so the two types are kept apart.
  JavaScript numbers that hold lengths and indices are exact integers below \<open>2^53\<close>,
  far above the longest string the runtime can build; they are modelled as \<open>nat\<close>.
\<close>

type_synonym jsstring = "16 word list"
type_synonym buffer = "8 word list"

definition js :: "string \<Rightarrow> jsstring" where
  "js s = map (\<lambda>c. of_nat (of_char c)) s"

text \<open>\<open>haystack.indexOf(needle)\<close>: the first index at which the needle occurs;
  \<open>None\<close> stands for the result \<open>-1\<close>.\<close>

fun indexOf :: "'a list \<Rightarrow> 'a list \<Rightarrow> nat option" where
  "indexOf [] needle = (if needle = [] then Some 0 else None)"
| "indexOf (x # xs) needle =
     (if prefix needle (x # xs) then Some 0 else map_option Suc (indexOf xs needle))"

text \<open>\<open>s.slice(a, b)\<close> and \<open>s.slice(a)\<close> for non-negative indices; both clamp to the
  length of the string, as \<open>take\<close> and \<open>drop\<close> do.\<close>

definition slice_js :: "nat \<Rightarrow> nat \<Rightarrow> 'a list \<Rightarrow> 'a list" where
  "slice_js a b s = take (b - a) (drop a s)"

definition slice_from :: "nat \<Rightarrow> 'a list \<Rightarrow> 'a list" where
  "slice_from a s = drop a s"

definition is_digit :: "16 word \<Rightarrow> bool" where
  "is_digit c \<longleftrightarrow> 0x30 \<le> c \<and> c \<le> 0x39"

text \<open>\<open>/Content-Length: (\d+)/.exec(header)\<close>: the leftmost place where the literal
  text is followed by at least one decimal digit; the group is the longest run of digits
  there. The result is the text of the group.\<close>

fun exec_Content_Length :: "jsstring \<Rightarrow> jsstring option" where
  "exec_Content_Length [] = None"
| "exec_Content_Length (c # cs) =
     (let digits = takeWhile is_digit (drop 16 (c # cs)) in
      if prefix (js ''Content-Length: '') (c # cs) \<and> digits \<noteq> [] then Some digits
      else exec_Content_Length cs)"

text \<open>\<open>parseInt(digits, 10)\<close> on a non-empty run of decimal digits.\<close>

definition parseInt :: "jsstring \<Rightarrow> nat" where
  "parseInt ds = foldl (\<lambda>n d. 10 * n + (unat d - 48)) 0 ds"

text \<open>The decimal text of a non-negative integer, as a template literal renders it.\<close>

fun decimal :: "nat \<Rightarrow> jsstring" where
  "decimal n = (if n < 10 then [of_nat (48 + n)]
                else decimal (n div 10) @ [of_nat (48 + n mod 10)])"

declare decimal.simps [simp del]

definition is_high_surrogate :: "16 word \<Rightarrow> bool" where
  "is_high_surrogate c \<longleftrightarrow> 0xD800 \<le> c \<and> c \<le> 0xDBFF"

definition is_low_surrogate :: "16 word \<Rightarrow> bool" where
  "is_low_surrogate c \<longleftrightarrow> 0xDC00 \<le> c \<and> c \<le> 0xDFFF"

text \<open>The number of UTF-8 bytes of one code unit that is not part of a surrogate pair
  (a lone surrogate is written as U+FFFD, three bytes).\<close>

definition unit_bytes :: "16 word \<Rightarrow> nat" where
  "unit_bytes c = (if c < 0x80 then 1 else if c < 0x800 then 2 else 3)"

text \<open>\<open>Buffer.byteLength(s)\<close>: the length of the UTF-8 encoding of \<open>s\<close>.\<close>

fun byteLength :: "jsstring \<Rightarrow> nat" where
  "byteLength [] = 0"
| "byteLength [c] = unit_bytes c"
| "byteLength (c # d # cs) =
     (if is_high_surrogate c \<and> is_low_surrogate d then 4 + byteLength cs
      else unit_bytes c + byteLength (d # cs))"

definition encode_unit :: "16 word \<Rightarrow> buffer" where
  "encode_unit c =
     (if c < 0x80 then [ucast c]
      else if c < 0x800 then [0xC0 OR ucast (drop_bit 6 c), 0x80 OR (ucast c AND 0x3F)]
      else if is_high_surrogate c \<or> is_low_surrogate c then [0xEF, 0xBF, 0xBD]
      else [0xE0 OR ucast (drop_bit 12 c), 0x80 OR (ucast (drop_bit 6 c) AND 0x3F),
            0x80 OR (ucast c AND 0x3F)])"

definition encode_pair :: "16 word \<Rightarrow> 16 word \<Rightarrow> buffer" where
  "encode_pair c d =
     (let cp = 0x10000 + (unat c - 0xD800) * 0x400 + (unat d - 0xDC00) in
      [of_nat (0xF0 + cp div 0x40000), of_nat (0x80 + (cp div 0x1000) mod 0x40),
       of_nat (0x80 + (cp div 0x40) mod 0x40), of_nat (0x80 + cp mod 0x40)])"

text \<open>The bytes that \<open>stdin.write(s)\<close> puts on the pipe: the UTF-8 encoding of \<open>s\<close>.\<close>

fun utf8_encode :: "jsstring \<Rightarrow> buffer" where
  "utf8_encode [] = []"
| "utf8_encode [c] = encode_unit c"
| "utf8_encode (c # d # cs) =
     (if is_high_surrogate c \<and> is_low_surrogate d then encode_pair c d @ utf8_encode cs
      else encode_unit c @ utf8_encode (d # cs))"

definition is_cont :: "8 word \<Rightarrow> bool" where
  "is_cont b \<longleftrightarrow> 0x80 \<le> b \<and> b \<le> 0xBF"

definition REPLACEMENT :: "16 word" where
  "REPLACEMENT = 0xFFFD"

text \<open>One step of the UTF-8 decoder behind \<open>data.toString()\<close>: from the lead byte and
  the bytes after it, the code units produced and how many of the following bytes were
  consumed. A byte sequence that is not well formed yields U+FFFD for its longest valid
  prefix, and decoding resumes at the offending byte; a sequence cut short by the end
  of the buffer yields one U+FFFD.\<close>

definition decode_one :: "8 word \<Rightarrow> buffer \<Rightarrow> jsstring \<times> nat" where
  "decode_one b bs =
     (if b < 0x80 then ([ucast b], 0)
      else if 0xC2 \<le> b \<and> b \<le> 0xDF then
        (case bs of
           c # _ \<Rightarrow>
             if is_cont c
             then ([push_bit 6 (ucast (b AND 0x1F)) OR ucast (c AND 0x3F)], 1)
             else ([REPLACEMENT], 0)
         | [] \<Rightarrow> ([REPLACEMENT], 0))
      else if 0xE0 \<le> b \<and> b \<le> 0xEF then
        (case bs of
           c # r \<Rightarrow>
             if (if b = 0xE0 then 0xA0 else 0x80) \<le> c \<and> c \<le> (if b = 0xED then 0x9F else 0xBF)
             then (case r of
                     d # _ \<Rightarrow>
                       if is_cont d
                       then ([push_bit 12 (ucast (b AND 0x0F)) OR push_bit 6 (ucast (c AND 0x3F))
                                OR ucast (d AND 0x3F)], 2)
                       else ([REPLACEMENT], 1)
                   | [] \<Rightarrow> ([REPLACEMENT], 1))
             else ([REPLACEMENT], 0)
         | [] \<Rightarrow> ([REPLACEMENT], 0))
      else if 0xF0 \<le> b \<and> b \<le> 0xF4 then
        (case bs of
           c # r \<Rightarrow>
             if (if b = 0xF0 then 0x90 else 0x80) \<le> c \<and> c \<le> (if b = 0xF4 then 0x8F else 0xBF)
             then (case r of
                     d # r' \<Rightarrow>
                       if is_cont d
                       then (case r' of
                               e # _ \<Rightarrow>
                                 if is_cont e
                                 then (let cp = unat (b AND 0x07) * 0x40000 + unat (c AND 0x3F) * 0x1000
                                                + unat (d AND 0x3F) * 0x40 + unat (e AND 0x3F) - 0x10000
                                       in ([of_nat (0xD800 + cp div 0x400),
                                            of_nat (0xDC00 + cp mod 0x400)], 3))
                                 else ([REPLACEMENT], 2)
                             | [] \<Rightarrow> ([REPLACEMENT], 2))
                       else ([REPLACEMENT], 1)
                   | [] \<Rightarrow> ([REPLACEMENT], 1))
             else ([REPLACEMENT], 0)
         | [] \<Rightarrow> ([REPLACEMENT], 0))
      else ([REPLACEMENT], 0))"

text \<open>\<open>data.toString()\<close> of a Buffer: UTF-8 decoding of that buffer alone.\<close>

function toString :: "buffer \<Rightarrow> jsstring" where
  "toString [] = []"
| "toString (b # bs) = fst (decode_one b bs) @ toString (drop (snd (decode_one b bs)) bs)"
  by pat_completeness auto
termination
  by (relation "measure length") auto

section \<open>The frame decoder on the text of the buffer\<close>

definition HEADER_END :: jsstring where
  "HEADER_END = [0x0D, 0x0A, 0x0D, 0x0A]"

text \<open>
  The loop of \<open>parseMessages\<close> read as a function of the buffer's text alone: the bodies
  it cuts out (each is handed to \<open>JSON.parse\<close>), the text it leaves in the buffer, and
  whether it left through the \<open>Invalid header\<close> branch, which empties the buffer.
\<close>

function scanFrames :: "jsstring \<Rightarrow> jsstring list \<times> jsstring \<times> bool" where
  "scanFrames buf =
     (case indexOf buf HEADER_END of
        None \<Rightarrow> ([], buf, False)
      | Some headerEnd \<Rightarrow>
          (case exec_Content_Length (slice_js 0 headerEnd buf) of
             None \<Rightarrow> ([], [], True)
           | Some digits \<Rightarrow>
               let contentLength = parseInt digits;
                   messageStart = headerEnd + 4;
                   messageEnd = messageStart + contentLength
               in if length buf < messageEnd then ([], buf, False)
                  else (case scanFrames (slice_from messageEnd buf) of
                          (bodies, rest, bad) \<Rightarrow>
                            (slice_js messageStart messageEnd buf # bodies, rest, bad))))"
  by pat_completeness auto
termination
  by (relation "measure length") (auto simp: slice_from_def)

declare scanFrames.simps [simp del]

section \<open>Protocol messages\<close>

text \<open>
  The Debug Adapter Protocol objects, with the fields this program reads or writes.
  A field the program guards with \<open>??\<close> is optional here. JavaScript numbers that hold
  identifiers, lines and sequence numbers are modelled as \<open>int\<close>: the program only
  compares them, tests them for zero and adds one.
\<close>

record StackFrame =
  frame_id :: int
  frame_name :: jsstring

record Scope =
  scope_name :: jsstring
  scope_variablesReference :: int

record DapVariable =
  dap_name :: jsstring
  dap_value :: jsstring
  dap_type :: "jsstring option"
  dap_variablesReference :: "int option"

record DapBreakpoint =
  dap_id :: "int option"
  dap_verified :: "bool option"
  dap_line :: "int option"

text \<open>The body of a response or event, seen through the properties the program reads;
  a property the object does not have is \<open>None\<close> (\<open>undefined\<close>).\<close>

record body =
  stackFrames :: "StackFrame list option"
  scopes :: "Scope list option"
  variables :: "DapVariable list option"
  breakpoints :: "DapBreakpoint list option"
  body_threadId :: "int option"

datatype arguments =
    ThreadArgs int
  | StackTraceArgs int int int
  | ScopesArgs int
  | VariablesArgs int
  | DisconnectArgs bool
  | SetBreakpointsArgs jsstring "int list"

text \<open>The object \<open>{type: 'request', seq, command, arguments}\<close> built by \<open>sendRequest\<close>.\<close>

record request =
  seq :: int
  command :: jsstring
  arguments :: arguments

text \<open>A decoded \<open>ProtocolMessage\<close>: a response (\<open>request_seq\<close>, \<open>success\<close>, \<open>message?\<close>,
  \<open>body?\<close>), an event (\<open>event\<close>, \<open>body?\<close>), or a message of another type.\<close>

datatype message =
    Response int bool "jsstring option" "body option"
  | Event jsstring "body option"
  | OtherMessage

text \<open>What a promise is settled with: \<open>resolve(response)\<close> or \<open>reject(new Error(text))\<close>.\<close>

datatype outcome = Resolved message | Rejected jsstring

text \<open>\<open>JSON.stringify\<close> and \<open>JSON.parse\<close> belong to the runtime, not to this program;
  they are parameters. \<open>JSON_parse\<close> gives \<open>None\<close> where \<open>JSON.parse\<close> throws.\<close>

record runtime =
  JSON_stringify :: "request \<Rightarrow> jsstring"
  JSON_parse :: "jsstring \<Rightarrow> message option"

section \<open>The debugger object and its environment\<close>

datatype io = Write nat jsstring | Kill nat

record timer =
  deadline :: nat
  timer_seq :: int
  timer_command :: jsstring
  timer_promise :: nat

text \<open>
  The first six fields are the fields of the class \<open>RustDebugger\<close>; a process handle is
  the identity of the subprocess. The remaining fields are the world the object acts on:
  \<open>transport\<close> lists the writes to a subprocess's standard input and the kills, in order;
  \<open>now\<close> is the clock in milliseconds and \<open>timers\<close> the armed \<open>setTimeout\<close> callbacks;
  \<open>promises\<close> counts the promises created by \<open>sendRequest\<close> and \<open>settled\<close> lists every
  call of a promise's \<open>resolve\<close> or \<open>reject\<close>; \<open>emitted\<close> lists the calls of \<open>emit\<close>;
  \<open>decoded\<close> lists the frame bodies handed to \<open>JSON.parse\<close>.
  A pending request stores the \<open>resolve\<close> and \<open>reject\<close> of one promise: it is modelled
  by the number of that promise.
\<close>

record RustDebugger =
  codelldbProcess :: "nat option"
  messageBuffer :: jsstring
  pendingRequests :: "int \<rightharpoonup> nat"
  requestSeq :: int
  threadId :: "int option"
  frameId :: "int option"
  transport :: "io list"
  now :: nat
  timers :: "timer list"
  promises :: nat
  settled :: "(nat \<times> outcome) list"
  emitted :: "(jsstring \<times> body option) list"
  decoded :: "jsstring list"

definition initial :: RustDebugger where
  "initial =
     \<lparr>codelldbProcess = None, messageBuffer = [], pendingRequests = Map.empty, requestSeq = 1,
      threadId = None, frameId = None, transport = [], now = 0, timers = [], promises = 0,
      settled = [], emitted = [], decoded = []\<rparr>"

definition REQUEST_TIMEOUT :: nat where
  "REQUEST_TIMEOUT = 30000"

definition resolve :: "nat \<Rightarrow> message \<Rightarrow> RustDebugger \<Rightarrow> RustDebugger" where
  "resolve p response s = s\<lparr>settled := settled s @ [(p, Resolved response)]\<rparr>"

definition reject :: "nat \<Rightarrow> jsstring \<Rightarrow> RustDebugger \<Rightarrow> RustDebugger" where
  "reject p text s = s\<lparr>settled := settled s @ [(p, Rejected text)]\<rparr>"

definition emit :: "jsstring \<Rightarrow> body option \<Rightarrow> RustDebugger \<Rightarrow> RustDebugger" where
  "emit event b s = s\<lparr>emitted := emitted s @ [(event, b)]\<rparr>"

text \<open>\<open>response.message || 'Request failed'\<close>: an absent or empty text is falsy.\<close>

definition failure_text :: "jsstring option \<Rightarrow> jsstring" where
  "failure_text m = (case m of None \<Rightarrow> js ''Request failed''
                     | Some t \<Rightarrow> if t = [] then js ''Request failed'' else t)"

definition timeout_text :: "jsstring \<Rightarrow> jsstring" where
  "timeout_text cmd = js ''Request '' @ cmd @ js '' timed out''"

definition handleMessage :: "message \<Rightarrow> RustDebugger \<Rightarrow> RustDebugger" where
  "handleMessage m s =
     (case m of
        Response request_seq success text b \<Rightarrow>
          (case pendingRequests s request_seq of
             None \<Rightarrow> s
           | Some pending \<Rightarrow>
               let s1 = s\<lparr>pendingRequests := (pendingRequests s)(request_seq := None)\<rparr>
               in if success then resolve pending m s1
                  else reject pending (failure_text text) s1)
      | Event event b \<Rightarrow> emit event b s
      | OtherMessage \<Rightarrow> s)"

text \<open>The callback that \<open>sendRequest\<close> hands to \<open>setTimeout\<close>.\<close>

definition onTimeout :: "timer \<Rightarrow> RustDebugger \<Rightarrow> RustDebugger" where
  "onTimeout t s =
     (if pendingRequests s (timer_seq t) \<noteq> None
      then reject (timer_promise t) (timeout_text (timer_command t))
             (s\<lparr>pendingRequests := (pendingRequests s)(timer_seq t := None)\<rparr>)
      else s)"

text \<open>The frame that \<open>sendRequest\<close> writes for the JSON text \<open>content\<close>.\<close>

definition frame :: "jsstring \<Rightarrow> jsstring" where
  "frame content = js ''Content-Length: '' @ decimal (byteLength content) @ HEADER_END @ content"

text \<open>\<open>sendRequest\<close> up to the point where it returns its promise: the sequence number is
  taken and the counter incremented, the promise is registered as pending, the frame is
  written when a subprocess exists, and the timer is armed. The promise is returned.\<close>

definition sendRequest ::
  "runtime \<Rightarrow> jsstring \<Rightarrow> arguments \<Rightarrow> RustDebugger \<Rightarrow> nat \<times> RustDebugger" where
  "sendRequest rt cmd args s =
     (let sq = requestSeq s;
          s1 = s\<lparr>requestSeq := sq + 1\<rparr>;
          msg = \<lparr>seq = sq, command = cmd, arguments = args\<rparr>;
          promise = promises s1;
          s2 = s1\<lparr>promises := promise + 1,
                  pendingRequests := (pendingRequests s1)(sq \<mapsto> promise)\<rparr>;
          content = JSON_stringify rt msg;
          s3 = (case codelldbProcess s2 of
                  None \<Rightarrow> s2
                | Some process \<Rightarrow> s2\<lparr>transport := transport s2 @ [Write process (frame content)]\<rparr>);
          s4 = s3\<lparr>timers := timers s3 @
                  [\<lparr>deadline = now s3 + REQUEST_TIMEOUT, timer_seq = sq, timer_command = cmd,
                    timer_promise = promise\<rparr>]\<rparr>
      in (promise, s4))"

text \<open>Time passes by \<open>dt\<close> milliseconds: the timers that are due run, in the order in
  which they were armed (all have the same delay), and are disarmed.\<close>

definition advance :: "nat \<Rightarrow> RustDebugger \<Rightarrow> RustDebugger" where
  "advance dt s =
     (let t = now s + dt
      in fold onTimeout (filter (\<lambda>x. deadline x \<le> t) (timers s))
           (s\<lparr>now := t, timers := filter (\<lambda>x. \<not> deadline x \<le> t) (timers s)\<rparr>))"

lemma messageBuffer_handleMessage [simp]:
  "messageBuffer (handleMessage m s) = messageBuffer s"
  by (simp add: handleMessage_def resolve_def reject_def emit_def Let_def
      split: message.splits option.splits)

text \<open>The loop of \<open>parseMessages\<close>, on the whole object. A body that \<open>JSON.parse\<close>
  rejects is logged and skipped.\<close>

function parseMessages :: "runtime \<Rightarrow> RustDebugger \<Rightarrow> RustDebugger" where
  "parseMessages rt s =
     (case indexOf (messageBuffer s) HEADER_END of
        None \<Rightarrow> s
      | Some headerEnd \<Rightarrow>
          (case exec_Content_Length (slice_js 0 headerEnd (messageBuffer s)) of
             None \<Rightarrow> s\<lparr>messageBuffer := []\<rparr>
           | Some digits \<Rightarrow>
               let contentLength = parseInt digits;
                   messageStart = headerEnd + 4;
                   messageEnd = messageStart + contentLength
               in if length (messageBuffer s) < messageEnd then s
                  else let content = slice_js messageStart messageEnd (messageBuffer s);
                           s1 = s\<lparr>messageBuffer := slice_from messageEnd (messageBuffer s),
                                   decoded := decoded s @ [content]\<rparr>
                       in parseMessages rt
                            (case JSON_parse rt content of
                               None \<Rightarrow> s1
                             | Some m \<Rightarrow> handleMessage m s1)))"
  by pat_completeness auto
termination
  by (relation "measure (\<lambda>(rt, s). length (messageBuffer s))")
     (auto simp: slice_from_def split: option.splits)

declare parseMessages.simps [simp del]

text \<open>The handler of the subprocess's \<open>stdout\<close> \<open>data\<close> event.\<close>

definition stdout_data :: "runtime \<Rightarrow> buffer \<Rightarrow> RustDebugger \<Rightarrow> RustDebugger" where
  "stdout_data rt chunk s = parseMessages rt (s\<lparr>messageBuffer := messageBuffer s @ toString chunk\<rparr>)"

section \<open>The operations offered to the tool layer\<close>

text \<open>
  An operation awaits the promise of each request it sends before it goes on. What the
  adapter does with a request is the operation's environment: it answers with a
  response for that request (success flag, optional failure text, optional body), or no
  response for it arrives within the window. After a \<open>continue\<close> or \<open>next\<close> the adapter
  may emit a \<open>stopped\<close> event or none at all; \<open>next_stopped\<close> gives its body, by the
  sequence number of the request that was answered.
\<close>

datatype reaction = Reply bool "jsstring option" "body option" | Silence

record adapter =
  respond :: "request \<Rightarrow> reaction"
  next_stopped :: "int \<Rightarrow> body option option"

text \<open>\<open>await this.sendRequest(cmd, args)\<close>: the request is sent; then either the
  response reaches \<open>handleMessage\<close> and settles the promise, or thirty seconds pass and
  the timer rejects it. The first component is what the \<open>await\<close> yields or throws.
  A \<open>Reply\<close> of the adapter is a response as \<open>handleMessage\<close> receives it: its frame
  has arrived whole and \<open>parseMessages\<close> has decoded it. A response whose frame the
  decoder does not deliver is, for the operation, the case \<open>Silence\<close>.\<close>

definition await_request ::
  "runtime \<Rightarrow> adapter \<Rightarrow> jsstring \<Rightarrow> arguments \<Rightarrow> RustDebugger \<Rightarrow> outcome \<times> RustDebugger" where
  "await_request rt ad cmd args s =
     (let sq = requestSeq s;
          s1 = snd (sendRequest rt cmd args s)
      in case respond ad \<lparr>seq = sq, command = cmd, arguments = args\<rparr> of
           Reply ok text b \<Rightarrow>
             (if ok then Resolved (Response sq ok text b) else Rejected (failure_text text),
              handleMessage (Response sq ok text b) s1)
         | Silence \<Rightarrow> (Rejected (timeout_text cmd), advance REQUEST_TIMEOUT s1))"

text \<open>\<open>ToolResponse<T>\<close>: \<open>{success, data?, error?}\<close>.\<close>

datatype 'a ToolResponse = ToolResponse (success: bool) (data: "'a option") (error: "jsstring option")

definition succeeded :: "'a ToolResponse" where
  "succeeded = ToolResponse True None None"

definition succeeded_with :: "'a \<Rightarrow> 'a ToolResponse" where
  "succeeded_with d = ToolResponse True (Some d) None"

definition failed :: "jsstring \<Rightarrow> 'a ToolResponse" where
  "failed text = ToolResponse False None (Some text)"

record Variable =
  var_name :: jsstring
  var_value :: jsstring
  var_type :: "jsstring option"
  var_variablesReference :: "int option"

record SetBreakpointConfig =
  config_file :: jsstring
  config_line :: int

record BreakpointInfo =
  bp_id :: int
  bp_file :: jsstring
  bp_line :: int
  bp_verified :: bool

definition NO_THREAD_ID :: jsstring where
  "NO_THREAD_ID = js ''No thread ID''"

text \<open>The message of the \<open>TypeError\<close> thrown when a property of an absent response body
  is read; the operation's \<open>catch\<close> turns it into a failure.\<close>

definition cannot_read :: "jsstring \<Rightarrow> jsstring" where
  "cannot_read property =
     js ''Cannot read properties of undefined (reading '' @ [0x27] @ property @ [0x27] @ js '')''"

definition response_body :: "message \<Rightarrow> body option" where
  "response_body m = (case m of Response _ _ _ b \<Rightarrow> b | _ \<Rightarrow> None)"

text \<open>\<open>continue\<close> and \<open>stepOver\<close>. The result is \<open>None\<close> when the operation never returns:
  the request was answered and no \<open>stopped\<close> event follows.\<close>

definition continue ::
  "runtime \<Rightarrow> adapter \<Rightarrow> RustDebugger \<Rightarrow> unit ToolResponse option \<times> RustDebugger" where
  "continue rt ad s =
     (case threadId s of
        None \<Rightarrow> (Some (failed NO_THREAD_ID), s)
      | Some tid \<Rightarrow>
          if tid = 0 then (Some (failed NO_THREAD_ID), s)
          else (case await_request rt ad (js ''continue'') (ThreadArgs tid) s of
                  (Rejected e, s1) \<Rightarrow> (Some (failed e), s1)
                | (Resolved r, s1) \<Rightarrow>
                    (case next_stopped ad (requestSeq s) of
                       None \<Rightarrow> (None, s1)
                     | Some b \<Rightarrow> (Some succeeded, handleMessage (Event (js ''stopped'') b) s1))))"

definition stepOver ::
  "runtime \<Rightarrow> adapter \<Rightarrow> RustDebugger \<Rightarrow> unit ToolResponse option \<times> RustDebugger" where
  "stepOver rt ad s =
     (case threadId s of
        None \<Rightarrow> (Some (failed NO_THREAD_ID), s)
      | Some tid \<Rightarrow>
          if tid = 0 then (Some (failed NO_THREAD_ID), s)
          else (case await_request rt ad (js ''next'') (ThreadArgs tid) s of
                  (Rejected e, s1) \<Rightarrow> (Some (failed e), s1)
                | (Resolved r, s1) \<Rightarrow>
                    (case next_stopped ad (requestSeq s) of
                       None \<Rightarrow> (None, s1)
                     | Some b \<Rightarrow> (Some succeeded, handleMessage (Event (js ''stopped'') b) s1))))"

definition to_Variable :: "DapVariable \<Rightarrow> Variable" where
  "to_Variable v =
     \<lparr>var_name = dap_name v, var_value = dap_value v, var_type = dap_type v,
      var_variablesReference = dap_variablesReference v\<rparr>"

text \<open>\<open>getVariablesFromReference\<close>: \<open>Inl\<close> is the message of the error it throws.\<close>

definition getVariablesFromReference ::
  "runtime \<Rightarrow> adapter \<Rightarrow> int \<Rightarrow> RustDebugger \<Rightarrow> (jsstring + Variable list) \<times> RustDebugger" where
  "getVariablesFromReference rt ad variablesReference s =
     (case await_request rt ad (js ''variables'') (VariablesArgs variablesReference) s of
        (Rejected e, s1) \<Rightarrow> (Inl e, s1)
      | (Resolved response, s1) \<Rightarrow>
          (case response_body response of
             None \<Rightarrow> (Inl (cannot_read (js ''variables'')), s1)
           | Some b \<Rightarrow>
               (Inr (map to_Variable (case variables b of None \<Rightarrow> [] | Some vars \<Rightarrow> vars)), s1)))"

text \<open>The loop of \<open>getVariables\<close> over the scopes, with the variables collected so far.\<close>

fun collectVariables ::
  "runtime \<Rightarrow> adapter \<Rightarrow> Scope list \<Rightarrow> Variable list \<Rightarrow> RustDebugger
     \<Rightarrow> (jsstring + Variable list) \<times> RustDebugger" where
  "collectVariables rt ad [] allVariables s = (Inr allVariables, s)"
| "collectVariables rt ad (scope # rest) allVariables s =
     (if scope_variablesReference scope \<noteq> 0
      then (case getVariablesFromReference rt ad (scope_variablesReference scope) s of
              (Inl e, s1) \<Rightarrow> (Inl e, s1)
            | (Inr vars, s1) \<Rightarrow> collectVariables rt ad rest (allVariables @ vars) s1)
      else collectVariables rt ad rest allVariables s)"

definition getVariables ::
  "runtime \<Rightarrow> adapter \<Rightarrow> RustDebugger \<Rightarrow> Variable list ToolResponse \<times> RustDebugger" where
  "getVariables rt ad s =
     (case threadId s of
        None \<Rightarrow> (failed NO_THREAD_ID, s)
      | Some tid \<Rightarrow>
          if tid = 0 then (failed NO_THREAD_ID, s)
          else (case await_request rt ad (js ''stackTrace'') (StackTraceArgs tid 0 1) s of
                  (Rejected e, s1) \<Rightarrow> (failed e, s1)
                | (Resolved stackTraceResponse, s1) \<Rightarrow>
                    (case response_body stackTraceResponse of
                       None \<Rightarrow> (failed (cannot_read (js ''stackFrames'')), s1)
                     | Some b1 \<Rightarrow>
                         (case (case stackFrames b1 of None \<Rightarrow> [] | Some fs \<Rightarrow> fs) of
                            [] \<Rightarrow> (succeeded_with [], s1)
                          | frame0 # _ \<Rightarrow>
                              let s2 = s1\<lparr>frameId := Some (frame_id frame0)\<rparr>
                              in (case await_request rt ad (js ''scopes'')
                                         (ScopesArgs (frame_id frame0)) s2 of
                                    (Rejected e, s3) \<Rightarrow> (failed e, s3)
                                  | (Resolved scopesResponse, s3) \<Rightarrow>
                                      (case response_body scopesResponse of
                                         None \<Rightarrow> (failed (cannot_read (js ''scopes'')), s3)
                                       | Some b2 \<Rightarrow>
                                           (case collectVariables rt ad
                                                   (case scopes b2 of None \<Rightarrow> [] | Some scs \<Rightarrow> scs)
                                                   [] s3 of
                                              (Inl e, s4) \<Rightarrow> (failed e, s4)
                                            | (Inr allVariables, s4) \<Rightarrow>
                                                (succeeded_with allVariables, s4))))))))"

definition kill :: "nat \<Rightarrow> RustDebugger \<Rightarrow> RustDebugger" where
  "kill process s = s\<lparr>transport := transport s @ [Kill process]\<rparr>"

definition terminate ::
  "runtime \<Rightarrow> adapter \<Rightarrow> RustDebugger \<Rightarrow> unit ToolResponse \<times> RustDebugger" where
  "terminate rt ad s =
     (case codelldbProcess s of
        None \<Rightarrow> (succeeded, s)
      | Some _ \<Rightarrow>
          let s1 = snd (await_request rt ad (js ''disconnect'') (DisconnectArgs True) s)
          in (case codelldbProcess s1 of
                None \<Rightarrow> (failed (js ''Cannot read properties of null (reading '' @ [0x27]
                                  @ js ''kill'' @ [0x27] @ js '')''), s1)
              | Some process \<Rightarrow> (succeeded, (kill process s1)\<lparr>codelldbProcess := None\<rparr>)))"

text \<open>The descriptor made from the adapter's breakpoint at position \<open>index\<close>.\<close>

definition to_BreakpointInfo :: "SetBreakpointConfig \<Rightarrow> nat \<Rightarrow> DapBreakpoint \<Rightarrow> BreakpointInfo" where
  "to_BreakpointInfo config index bp =
     \<lparr>bp_id = (case dap_id bp of None \<Rightarrow> int index | Some i \<Rightarrow> i),
      bp_file = config_file config,
      bp_line = (case dap_line bp of None \<Rightarrow> config_line config | Some l \<Rightarrow> l),
      bp_verified = (case dap_verified bp of None \<Rightarrow> False | Some v \<Rightarrow> v)\<rparr>"

definition setBreakpoint ::
  "runtime \<Rightarrow> adapter \<Rightarrow> SetBreakpointConfig \<Rightarrow> RustDebugger
     \<Rightarrow> BreakpointInfo list ToolResponse \<times> RustDebugger" where
  "setBreakpoint rt ad config s =
     (case await_request rt ad (js ''setBreakpoints'')
             (SetBreakpointsArgs (config_file config) [config_line config]) s of
        (Rejected e, s1) \<Rightarrow> (failed e, s1)
      | (Resolved response, s1) \<Rightarrow>
          (case response_body response of
             None \<Rightarrow> (failed (cannot_read (js ''breakpoints'')), s1)
           | Some b \<Rightarrow>
               (succeeded_with
                  (map (\<lambda>(index, bp). to_BreakpointInfo config index bp)
                     (enumerate 0 (case breakpoints b of None \<Rightarrow> [] | Some bps \<Rightarrow> bps))),
                s1)))"

text \<open>What the loop does with the bodies it cuts out, in order: each is logged, parsed,
  and, when it parses, handled.\<close>

definition deliver :: "runtime \<Rightarrow> jsstring list \<Rightarrow> RustDebugger \<Rightarrow> RustDebugger" where
  "deliver rt bodies s =
     fold handleMessage (List.map_filter (JSON_parse rt) bodies) (s\<lparr>decoded := decoded s @ bodies\<rparr>)"

text \<open>Whether decoding the text \<open>buf\<close> runs into the \<open>Invalid header\<close> branch.\<close>

definition invalid_header :: "jsstring \<Rightarrow> bool" where
  "invalid_header buf = snd (snd (scanFrames buf))"

text \<open>A text of ASCII characters only: one byte, and one code unit, per character.\<close>

definition ascii :: "jsstring \<Rightarrow> bool" where
  "ascii s \<longleftrightarrow> (\<forall>c\<in>set s. c < 0x80)"

text \<open>What \<open>sendRequest\<close> writes to the transport for a request: one frame when a
  subprocess exists, nothing otherwise.\<close>

definition written :: "runtime \<Rightarrow> nat option \<Rightarrow> request \<Rightarrow> io list" where
  "written rt process r =
     (case process of
        None \<Rightarrow> []
      | Some p \<Rightarrow> [Write p (frame (JSON_stringify rt r))])"

section \<open>Runs of the correlator\<close>

text \<open>
  The correlator is driven by three kinds of events: a request is sent, a chunk of bytes
  arrives on the subprocess's output, time passes. A run applies a list of events in
  order.
\<close>

datatype event = Send jsstring arguments | Data buffer | Tick nat

fun step :: "runtime \<Rightarrow> event \<Rightarrow> RustDebugger \<Rightarrow> RustDebugger" where
  "step rt (Send cmd args) s = snd (sendRequest rt cmd args s)"
| "step rt (Data chunk) s = stdout_data rt chunk s"
| "step rt (Tick dt) s = advance dt s"

definition run :: "runtime \<Rightarrow> event list \<Rightarrow> RustDebugger \<Rightarrow> RustDebugger" where
  "run rt evs s = fold (step rt) evs s"

text \<open>
  What \<open>handleMessage\<close> settles the promise of a pending request with, for a response.
\<close>

definition response_outcome :: "message \<Rightarrow> outcome" where
  "response_outcome m =
     (case m of
        Response _ ok text _ \<Rightarrow> if ok then Resolved m else Rejected (failure_text text)
      | _ \<Rightarrow> Resolved m)"

text \<open>
  The outcomes delivered to promise \<open>p\<close> so far, in order.
\<close>

definition outcomes :: "nat \<Rightarrow> RustDebugger \<Rightarrow> outcome list" where
  "outcomes p s = map snd (filter (\<lambda>x. fst x = p) (settled s))"

text \<open>
  The bookkeeping of a session is consistent when every pending sequence number and
  every armed timer belongs to a request already sent (its number is below the counter,
  its promise was created), no promise is pending under two numbers, no armed timer is
  overdue, and only promises that exist have been settled.
\<close>

definition consistent :: "RustDebugger \<Rightarrow> bool" where
  "consistent s \<longleftrightarrow>
     (\<forall>q p. pendingRequests s q = Some p \<longrightarrow> q < requestSeq s \<and> p < promises s)
   \<and> (\<forall>q q' p. pendingRequests s q = Some p \<longrightarrow> pendingRequests s q' = Some p \<longrightarrow> q = q')
   \<and> (\<forall>t\<in>set (timers s). timer_seq t < requestSeq s \<and> timer_promise t < promises s
                           \<and> now s < deadline t)
   \<and> (\<forall>x\<in>set (settled s). fst x < promises s)"

text \<open>The sequence numbers that the \<open>Send\<close> events of a run take, in order.\<close>

fun assigned :: "runtime \<Rightarrow> event list \<Rightarrow> RustDebugger \<Rightarrow> int list" where
  "assigned rt [] s = []"
| "assigned rt (Send cmd args # evs) s = requestSeq s # assigned rt evs (step rt (Send cmd args) s)"
| "assigned rt (e # evs) s = assigned rt evs (step rt e s)"

text \<open>
  The outcomes a request with number \<open>q\<close>, command \<open>cmd\<close> and deadline \<open>d\<close>
  can end with, at time \<open>n\<close>.
\<close>

definition final_outcome :: "int \<Rightarrow> jsstring \<Rightarrow> nat \<Rightarrow> nat \<Rightarrow> outcome \<Rightarrow> bool" where
  "final_outcome q cmd d n oc \<longleftrightarrow>
     (oc = Rejected (timeout_text cmd) \<and> d \<le> n)
   \<or> (\<exists>ok tx b. oc = response_outcome (Response q ok tx b))"

text \<open>
  The state of one request among the others: promise \<open>p\<close>, number \<open>q\<close>, command \<open>cmd\<close>,
  deadline \<open>d\<close>; \<open>S\<close> are the timers still to run. The number leads to this promise
  only and the promise is found under this number only; either the request is pending,
  unsettled and its timer is still to run, or it is no longer pending and has exactly
  one outcome, which satisfies \<open>F\<close>.
\<close>

definition tracked_in ::
  "(nat \<Rightarrow> outcome \<Rightarrow> bool) \<Rightarrow> timer set \<Rightarrow> nat \<Rightarrow> int \<Rightarrow> jsstring \<Rightarrow> nat \<Rightarrow> RustDebugger
     \<Rightarrow> bool" where
  "tracked_in F S p q cmd d s \<longleftrightarrow>
     (\<forall>q'. pendingRequests s q' = Some p \<longrightarrow> q' = q)
   \<and> (\<forall>t\<in>S. timer_promise t = p \<or> timer_seq t = q \<longrightarrow>
          t = \<lparr>deadline = d, timer_seq = q, timer_command = cmd, timer_promise = p\<rparr>)
   \<and> ((pendingRequests s q = Some p \<and> outcomes p s = []
        \<and> \<lparr>deadline = d, timer_seq = q, timer_command = cmd, timer_promise = p\<rparr> \<in> S)
      \<or> (pendingRequests s q = None
          \<and> (\<exists>oc. outcomes p s = [oc] \<and> F (now s) oc)))
   \<and> q < requestSeq s \<and> p < promises s"

definition tracked :: "nat \<Rightarrow> int \<Rightarrow> jsstring \<Rightarrow> nat \<Rightarrow> RustDebugger \<Rightarrow> bool" where
  "tracked p q cmd d s \<longleftrightarrow>
     tracked_in (final_outcome q cmd d) (set (timers s)) p q cmd d s
   \<and> (\<forall>t\<in>set (timers s). now s < deadline t)"

section \<open>Scenarios\<close>

text \<open>
  The start-up sequence \<open>launch\<close> is not part of this development. The states it
  leaves behind are represented directly: a subprocess exists; after the first stop a
  thread identifier is set.
\<close>

text \<open>
  An adapter that answers with \<open>{breakpoints: [{verified: true, line: 10}]}\<close>.
\<close>

definition breakpoint_scenario :: adapter where
  "breakpoint_scenario =
     \<lparr>respond = (\<lambda>r. Reply True None
         (Some \<lparr>stackFrames = None, scopes = None, variables = None,
                breakpoints = Some [\<lparr>dap_id = None, dap_verified = Some True, dap_line = Some 10\<rparr>],
                body_threadId = None\<rparr>)),
      next_stopped = (\<lambda>_. None)\<rparr>"

text \<open>
  A session whose subprocess exists and whose first stop has not happened: no thread
  identifier yet.
\<close>

definition launched :: RustDebugger where
  "launched = initial\<lparr>codelldbProcess := Some 1\<rparr>"


text \<open>
  A session stopped in thread \<open>tid\<close>.
\<close>

definition stopped_at :: "int \<Rightarrow> RustDebugger" where
  "stopped_at tid = initial\<lparr>codelldbProcess := Some 1, threadId := Some tid\<rparr>"

text \<open>
  An adapter for a variable inspection: the stack trace has one frame with identifier 1;
  its scopes are \<open>Locals\<close>, with variables reference 100, and \<open>Registers\<close>, with
  reference 0; the variables of reference 100 are \<open>[{name: "x", value: "42", type: "i32"}]\<close>.
\<close>

definition variables_scenario :: adapter where
  "variables_scenario =
     \<lparr>respond = (\<lambda>r.
         case arguments r of
           StackTraceArgs _ _ _ \<Rightarrow>
             Reply True None
               (Some \<lparr>stackFrames = Some [\<lparr>frame_id = 1, frame_name = js ''main''\<rparr>], scopes = None,
                      variables = None, breakpoints = None, body_threadId = None\<rparr>)
         | ScopesArgs _ \<Rightarrow>
             Reply True None
               (Some \<lparr>stackFrames = None,
                      scopes = Some [\<lparr>scope_name = js ''Locals'', scope_variablesReference = 100\<rparr>,
                                     \<lparr>scope_name = js ''Registers'', scope_variablesReference = 0\<rparr>],
                      variables = None, breakpoints = None, body_threadId = None\<rparr>)
         | VariablesArgs ref \<Rightarrow>
             if ref = 100
             then Reply True None
                    (Some \<lparr>stackFrames = None, scopes = None,
                           variables = Some [\<lparr>dap_name = js ''x'', dap_value = js ''42'',
                                              dap_type = Some (js ''i32''),
                                              dap_variablesReference = None\<rparr>],
                           breakpoints = None, body_threadId = None\<rparr>)
             else Reply False None None
         | _ \<Rightarrow> Silence),
      next_stopped = (\<lambda>_. None)\<rparr>"

text \<open>
  The same adapter with a third scope, \<open>Statics\<close>, with variables reference 200, whose
  variables are \<open>[{name: "v", value: "{...}", variablesReference: 201}]\<close>, without a type.
\<close>

definition two_scopes_scenario :: adapter where
  "two_scopes_scenario =
     \<lparr>respond = (\<lambda>r.
         case arguments r of
           StackTraceArgs _ _ _ \<Rightarrow>
             Reply True None
               (Some \<lparr>stackFrames = Some [\<lparr>frame_id = 1, frame_name = js ''main''\<rparr>], scopes = None,
                      variables = None, breakpoints = None, body_threadId = None\<rparr>)
         | ScopesArgs _ \<Rightarrow>
             Reply True None
               (Some \<lparr>stackFrames = None,
                      scopes = Some [\<lparr>scope_name = js ''Locals'', scope_variablesReference = 100\<rparr>,
                                     \<lparr>scope_name = js ''Registers'', scope_variablesReference = 0\<rparr>,
                                     \<lparr>scope_name = js ''Statics'', scope_variablesReference = 200\<rparr>],
                      variables = None, breakpoints = None, body_threadId = None\<rparr>)
         | VariablesArgs ref \<Rightarrow>
             if ref = 100
             then Reply True None
                    (Some \<lparr>stackFrames = None, scopes = None,
                           variables = Some [\<lparr>dap_name = js ''x'', dap_value = js ''42'',
                                              dap_type = Some (js ''i32''),
                                              dap_variablesReference = None\<rparr>],
                           breakpoints = None, body_threadId = None\<rparr>)
             else if ref = 200
             then Reply True None
                    (Some \<lparr>stackFrames = None, scopes = None,
                           variables = Some [\<lparr>dap_name = js ''v'', dap_value = js ''{...}'',
                                              dap_type = None,
                                              dap_variablesReference = Some 201\<rparr>],
                           breakpoints = None, body_threadId = None\<rparr>)
             else Reply False None None
         | _ \<Rightarrow> Silence),
      next_stopped = (\<lambda>_. None)\<rparr>"

text \<open>The \<open>variables\<close> requests for the references \<open>refs\<close>, numbered from \<open>q\<close>.\<close>

definition variables_requests :: "int \<Rightarrow> int list \<Rightarrow> request list" where
  "variables_requests q refs =
     map (\<lambda>(i, ref). \<lparr>seq = q + int i, command = js ''variables'', arguments = VariablesArgs ref\<rparr>)
       (enumerate 0 refs)"

text \<open>The references the loop of \<open>getVariables\<close> asks for: those that are not zero.\<close>

definition references :: "Scope list \<Rightarrow> int list" where
  "references scs = filter (\<lambda>r. r \<noteq> 0) (map scope_variablesReference scs)"

text \<open>The JSON text of the first request of a session that sets a breakpoint in the file
  \<open>src/e.rs\<close> whose \<open>e\<close> carries an acute accent (U+00E9), line 10: 124 code units,
  125 bytes in UTF-8.\<close>

definition request_with_accent :: jsstring where
  \<open>request_with_accent =
     js ''{"type":"request","seq":1,"command":"setBreakpoints","arguments":{"source":{"path":"src/''
     @ [0xE9] @ js ''.rs"},"breakpoints":[{"line":10}]}}''\<close>

section \<open>The decoder reads the buffer incrementally\<close>

lemma indexOf_Nil [simp]: "indexOf xs [] = Some 0"
  by (cases xs) auto

lemma indexOf_bound: "indexOf xs n = Some i \<Longrightarrow> i + length n \<le> length xs"
proof (induction xs arbitrary: i)
  case Nil
  then show ?case by (auto split: if_splits)
next
  case (Cons a xs)
  show ?case
  proof (cases "prefix n (a # xs)")
    case True
    with Cons.prems have "i = 0" by simp
    with True show ?thesis using prefix_length_le by fastforce
  next
    case False
    with Cons.prems obtain j where "indexOf xs n = Some j" "i = Suc j" by auto
    with Cons.IH show ?thesis by fastforce
  qed
qed

lemma prefix_append_shorter:
  "prefix n (xs @ ys) \<Longrightarrow> length n \<le> length xs \<Longrightarrow> prefix n xs"
  by (metis prefix_append prefix_length_prefix prefixI prefix_order.dual_order.refl prefix_def)

lemma indexOf_append: "indexOf xs n = Some i \<Longrightarrow> indexOf (xs @ ys) n = Some i"
proof (induction xs arbitrary: i)
  case Nil
  then show ?case by (auto split: if_splits)
next
  case (Cons a xs)
  show ?case
  proof (cases "prefix n (a # xs)")
    case True
    then have "prefix n ((a # xs) @ ys)" using prefix_prefix by blast
    with True Cons.prems show ?thesis by simp
  next
    case False
    with Cons.prems obtain j where j: "indexOf xs n = Some j" "i = Suc j" by auto
    from indexOf_bound[OF j(1)] have "length n \<le> length (a # xs)" by simp
    with False have "\<not> prefix n ((a # xs) @ ys)"
      using prefix_append_shorter by blast
    with j Cons.IH show ?thesis by simp
  qed
qed

lemma scanFrames_bad_rest: "scanFrames b = (fs, r, True) \<Longrightarrow> r = []"
proof (induction b arbitrary: fs rule: scanFrames.induct)
  case (1 buf)
  from "1.prems" show ?case
    apply (subst (asm) scanFrames.simps)
    apply (auto split: option.splits if_splits prod.splits simp: Let_def dest: "1.IH")
    done
qed

lemma scanFrames_append:
  "scanFrames (b @ c) =
     (case scanFrames b of
        (fs, r, bad) \<Rightarrow>
          if bad then (fs, [], True)
          else (case scanFrames (r @ c) of (fs2, r2, bad2) \<Rightarrow> (fs @ fs2, r2, bad2)))"
proof (induction b rule: scanFrames.induct)
  case (1 buf)
  show ?case
  proof (cases "indexOf buf HEADER_END")
    case None
    then have "scanFrames buf = ([], buf, False)"
      by (subst scanFrames.simps) simp
    then show ?thesis by (simp split: prod.splits)
  next
    case (Some h)
    have hb: "h + 4 \<le> length buf"
      using indexOf_bound[OF Some] by (simp add: HEADER_END_def)
    have ix: "indexOf (buf @ c) HEADER_END = Some h"
      using Some by (rule indexOf_append)
    have hd: "slice_js 0 h (buf @ c) = slice_js 0 h buf"
      using hb by (simp add: slice_js_def)
    show ?thesis
    proof (cases "exec_Content_Length (slice_js 0 h buf)")
      case None
      have "scanFrames buf = ([], [], True)"
        using Some None by (subst scanFrames.simps) simp
      moreover have "scanFrames (buf @ c) = ([], [], True)"
        using ix hd None by (subst scanFrames.simps) simp
      ultimately show ?thesis by simp
    next
      case (Some digits)
      note dg = Some
      define e where "e = h + 4 + parseInt digits"
      show ?thesis
      proof (cases "length buf < e")
        case True
        then have "scanFrames buf = ([], buf, False)"
          using \<open>indexOf buf HEADER_END = Some h\<close> dg
          by (subst scanFrames.simps) (simp add: e_def Let_def)
        then show ?thesis by (simp split: prod.splits)
      next
        case False
        obtain fs r bad where sr: "scanFrames (slice_from e buf) = (fs, r, bad)"
          by (cases "scanFrames (slice_from e buf)") auto
        have s1: "scanFrames buf = (slice_js (h + 4) e buf # fs, r, bad)"
          using \<open>indexOf buf HEADER_END = Some h\<close> dg False sr
          by (subst scanFrames.simps) (simp add: e_def Let_def)
        have dr: "slice_from e (buf @ c) = slice_from e buf @ c"
          using False by (simp add: slice_from_def)
        have sl: "slice_js (h + 4) e (buf @ c) = slice_js (h + 4) e buf"
          using False by (simp add: slice_js_def)
        have s2: "scanFrames (buf @ c) =
                  (case scanFrames (slice_from e buf @ c) of
                     (bodies, rest, bad) \<Rightarrow> (slice_js (h + 4) e buf # bodies, rest, bad))"
          using ix hd dg False dr sl
          by (subst scanFrames.simps) (simp add: e_def Let_def)
        have IH: "scanFrames (slice_from e buf @ c) =
                   (if bad then (fs, [], True)
                    else (case scanFrames (r @ c) of (fs2, r2, bad2) \<Rightarrow> (fs @ fs2, r2, bad2)))"
          using "1.IH"[OF \<open>indexOf buf HEADER_END = Some h\<close> dg refl refl refl, of ] False sr
          by (simp add: e_def)
        show ?thesis
          by (simp add: s1 s2 IH split: prod.splits)
      qed
    qed
  qed
qed

lemma handleMessage_messageBuffer_update:
  "handleMessage m (s\<lparr>messageBuffer := b\<rparr>) = (handleMessage m s)\<lparr>messageBuffer := b\<rparr>"
  by (simp add: handleMessage_def resolve_def reject_def emit_def Let_def
      split: message.splits option.splits)

lemma handleMessage_decoded_update:
  "handleMessage m (s\<lparr>decoded := d\<rparr>) = (handleMessage m s)\<lparr>decoded := d\<rparr>"
  by (simp add: handleMessage_def resolve_def reject_def emit_def Let_def
      split: message.splits option.splits)

lemma decoded_handleMessage [simp]: "decoded (handleMessage m s) = decoded s"
  by (simp add: handleMessage_def resolve_def reject_def emit_def Let_def
      split: message.splits option.splits)

lemma fold_handleMessage_messageBuffer_update:
  "fold handleMessage ms (s\<lparr>messageBuffer := b\<rparr>) = (fold handleMessage ms s)\<lparr>messageBuffer := b\<rparr>"
  by (induction ms arbitrary: s) (simp_all add: handleMessage_messageBuffer_update)

lemma fold_handleMessage_decoded_update:
  "fold handleMessage ms (s\<lparr>decoded := d\<rparr>) = (fold handleMessage ms s)\<lparr>decoded := d\<rparr>"
  by (induction ms arbitrary: s) (simp_all add: handleMessage_decoded_update)

lemma decoded_fold_handleMessage [simp]: "decoded (fold handleMessage ms s) = decoded s"
  by (induction ms arbitrary: s) simp_all

lemma messageBuffer_fold_handleMessage [simp]:
  "messageBuffer (fold handleMessage ms s) = messageBuffer s"
  by (induction ms arbitrary: s) simp_all

lemma decoded_messageBuffer_commute:
  "(s\<lparr>decoded := d\<rparr>)\<lparr>messageBuffer := b\<rparr> = (s\<lparr>messageBuffer := b\<rparr>)\<lparr>decoded := d\<rparr>"
  by simp

lemma deliver_Nil [simp]: "deliver rt [] s = s"
  by (simp add: deliver_def map_filter_simps)

lemma deliver_messageBuffer_update:
  "deliver rt bodies (s\<lparr>messageBuffer := b\<rparr>) = (deliver rt bodies s)\<lparr>messageBuffer := b\<rparr>"
proof -
  have e: "(s\<lparr>messageBuffer := b\<rparr>)\<lparr>decoded := decoded (s\<lparr>messageBuffer := b\<rparr>) @ bodies\<rparr> =
        (s\<lparr>decoded := decoded s @ bodies\<rparr>)\<lparr>messageBuffer := b\<rparr>"
    by simp
  show ?thesis
    unfolding deliver_def e by (rule fold_handleMessage_messageBuffer_update)
qed

lemma messageBuffer_deliver [simp]: "messageBuffer (deliver rt bodies s) = messageBuffer s"
  by (simp add: deliver_def)

lemma map_filter_append:
  "List.map_filter f (xs @ ys) = List.map_filter f xs @ List.map_filter f ys"
  by (simp add: List.map_filter_def)

lemma deliver_append: "deliver rt (xs @ ys) s = deliver rt ys (deliver rt xs s)"
  by (simp add: deliver_def map_filter_append fold_handleMessage_decoded_update[symmetric])

lemma deliver_Cons:
  "deliver rt (x # xs) s =
     deliver rt xs (case JSON_parse rt x of None \<Rightarrow> s\<lparr>decoded := decoded s @ [x]\<rparr>
                    | Some m \<Rightarrow> handleMessage m (s\<lparr>decoded := decoded s @ [x]\<rparr>))"
  by (simp add: deliver_def map_filter_simps fold_handleMessage_decoded_update[symmetric]
        handleMessage_decoded_update[symmetric] split: option.splits)

lemma parseMessages_scanFrames:
  "parseMessages rt s =
     (case scanFrames (messageBuffer s) of
        (bodies, rest, bad) \<Rightarrow> deliver rt bodies (s\<lparr>messageBuffer := rest\<rparr>))"
proof (induction rt s rule: parseMessages.induct)
  case (1 rt s)
  show ?case
  proof (cases "indexOf (messageBuffer s) HEADER_END")
    case None
    then show ?thesis
      by (subst parseMessages.simps, subst scanFrames.simps) simp
  next
    case (Some h)
    note ix = Some
    show ?thesis
    proof (cases "exec_Content_Length (slice_js 0 h (messageBuffer s))")
      case None
      then show ?thesis using ix
        by (subst parseMessages.simps, subst scanFrames.simps) simp
    next
      case (Some digits)
      note dg = Some
      define e where "e = h + 4 + parseInt digits"
      show ?thesis
      proof (cases "length (messageBuffer s) < e")
        case True
        then show ?thesis using ix dg
          by (subst parseMessages.simps, subst scanFrames.simps) (simp add: e_def Let_def)
      next
        case False
        define content where "content = slice_js (h + 4) e (messageBuffer s)"
        define s1 where "s1 = s\<lparr>messageBuffer := slice_from e (messageBuffer s),
                                   decoded := decoded s @ [content]\<rparr>"
        define s2 where "s2 = (case JSON_parse rt content of None \<Rightarrow> s1
                               | Some m \<Rightarrow> handleMessage m s1)"
        have mb: "messageBuffer s2 = slice_from e (messageBuffer s)"
          by (simp add: s2_def s1_def split: option.splits)
        have IH: "parseMessages rt s2 =
                   (case scanFrames (messageBuffer s2) of
                      (bodies, rest, bad) \<Rightarrow> deliver rt bodies (s2\<lparr>messageBuffer := rest\<rparr>))"
        proof -
          have nl: "\<not> length (messageBuffer s) < h + 4 + parseInt digits"
            using False by (simp add: e_def)
          show ?thesis
            unfolding e_def s2_def s1_def content_def
            by (rule "1.IH"[OF ix dg refl refl refl nl refl refl])
        qed
        have p: "parseMessages rt s = parseMessages rt s2"
          unfolding s2_def s1_def content_def e_def
          using ix dg False[unfolded e_def]
          by (subst parseMessages.simps) (simp add: Let_def)
        obtain fs r bad where sr: "scanFrames (slice_from e (messageBuffer s)) = (fs, r, bad)"
          by (cases "scanFrames (slice_from e (messageBuffer s))") auto
        have sc: "scanFrames (messageBuffer s) = (content # fs, r, bad)"
          using ix dg False sr
          by (subst scanFrames.simps) (simp add: e_def Let_def content_def)
        have "deliver rt (content # fs) (s\<lparr>messageBuffer := r\<rparr>) = deliver rt fs (s2\<lparr>messageBuffer := r\<rparr>)"
          by (simp add: deliver_Cons s2_def s1_def handleMessage_messageBuffer_update[symmetric]
                decoded_messageBuffer_commute split: option.splits)
        then show ?thesis
          by (simp add: p IH mb sr sc)
      qed
    qed
  qed
qed

lemma scanFrames_no_header:
  "indexOf buf HEADER_END = None \<Longrightarrow> scanFrames buf = ([], buf, False)"
  by (subst scanFrames.simps) simp

lemma scanFrames_incomplete:
  "indexOf buf HEADER_END = Some h \<Longrightarrow> exec_Content_Length (slice_js 0 h buf) = Some digits \<Longrightarrow>
   length buf < h + 4 + parseInt digits \<Longrightarrow> scanFrames buf = ([], buf, False)"
  by (subst scanFrames.simps) (simp add: Let_def)

lemma scanFrames_idem:
  "scanFrames b = (fs, r, False) \<Longrightarrow> scanFrames r = ([], r, False)"
proof (induction b arbitrary: fs rule: scanFrames.induct)
  case (1 buf)
  show ?case
  proof (cases "indexOf buf HEADER_END")
    case None
    with "1.prems" show ?thesis
      by (simp add: scanFrames_no_header)
  next
    case (Some h)
    note ix = Some
    show ?thesis
    proof (cases "exec_Content_Length (slice_js 0 h buf)")
      case None
      with "1.prems" ix show ?thesis
        by (subst (asm) scanFrames.simps) auto
    next
      case (Some digits)
      note dg = Some
      show ?thesis
      proof (cases "length buf < h + 4 + parseInt digits")
        case True
        with "1.prems" ix dg show ?thesis
          by (simp add: scanFrames_incomplete)
      next
        case False
        with "1.prems" ix dg obtain fs' where
          "scanFrames (slice_from (h + 4 + parseInt digits) buf) = (fs', r, False)"
          by (subst (asm) scanFrames.simps) (auto simp: Let_def split: prod.splits)
        with "1.IH"[OF ix dg refl refl refl] False show ?thesis by simp
      qed
    qed
  qed
qed

lemma fold_stdout_data:
  "scanFrames (messageBuffer s) = ([], messageBuffer s, False) \<Longrightarrow>
   \<not> invalid_header (messageBuffer s @ concat (map toString chunks)) \<Longrightarrow>
   fold (stdout_data rt) chunks s =
     (case scanFrames (messageBuffer s @ concat (map toString chunks)) of
        (bodies, rest, bad) \<Rightarrow> deliver rt bodies (s\<lparr>messageBuffer := rest\<rparr>))"
proof (induction chunks arbitrary: s)
  case Nil
  then show ?case by simp
next
  case (Cons c cs)
  define buf where "buf = messageBuffer s @ toString c"
  define more where "more = concat (map toString cs)"
  obtain fs1 r1 bad1 where s1: "scanFrames buf = (fs1, r1, bad1)"
    by (cases "scanFrames buf") auto
  obtain fs2 r2 bad2 where s2: "scanFrames (r1 @ more) = (fs2, r2, bad2)"
    by (cases "scanFrames (r1 @ more)") auto
  have whole: "scanFrames (buf @ more) =
                 (if bad1 then (fs1, [], True) else (fs1 @ fs2, r2, bad2))"
    by (simp add: scanFrames_append[of buf more] s1 s2)
  have nb: "\<not> invalid_header (buf @ more)"
    using Cons.prems(2) by (simp add: buf_def more_def)
  with whole have b1: "\<not> bad1" and b2: "\<not> bad2"
    by (auto simp: invalid_header_def split: if_splits)
  define t where "t = stdout_data rt c s"
  have t: "t = deliver rt fs1 (s\<lparr>messageBuffer := r1\<rparr>)"
    by (simp add: t_def stdout_data_def parseMessages_scanFrames buf_def[symmetric] s1)
  have q: "scanFrames (messageBuffer t) = ([], messageBuffer t, False)"
    using scanFrames_idem[of buf fs1 r1] s1 b1 by (simp add: t)
  have n2: "\<not> invalid_header (messageBuffer t @ concat (map toString cs))"
    using s2 b2 by (simp add: t invalid_header_def more_def)
  have "fold (stdout_data rt) (c # cs) s = fold (stdout_data rt) cs t"
    by (simp add: t_def)
  also have "\<dots> = deliver rt fs2 (t\<lparr>messageBuffer := r2\<rparr>)"
    using Cons.IH[OF q n2] s2 by (simp add: t more_def)
  also have "\<dots> = deliver rt (fs1 @ fs2) (s\<lparr>messageBuffer := r2\<rparr>)"
    by (simp add: t deliver_append deliver_messageBuffer_update)
  finally show ?case
    using whole b1 by (simp add: buf_def more_def)
qed

lemma decoded_deliver [simp]: "decoded (deliver rt bodies s) = decoded s @ bodies"
  by (simp add: deliver_def)

lemma decode_one_ascii: "b < 0x80 \<Longrightarrow> decode_one b bs = ([ucast b], 0)"
  by (simp add: decode_one_def)

lemma toString_ascii: "\<forall>b\<in>set bs. b < 0x80 \<Longrightarrow> toString bs = map ucast bs"
  by (induction bs) (simp_all add: decode_one_ascii)

lemma toString_concat_ascii:
  assumes "\<forall>c\<in>set chunks. \<forall>b\<in>set c. b < 0x80"
  shows "toString (concat chunks) = concat (map toString chunks)"
proof -
  have a: "toString (concat chunks) = map ucast (concat chunks)"
    using assms by (intro toString_ascii) auto
  have b: "map toString chunks = map (map ucast) chunks"
    using assms by (induction chunks) (simp_all add: toString_ascii)
  show ?thesis by (simp only: a b map_concat)
qed

text \<open>A chunk boundary inside a multi-byte character: each half decodes to U+FFFD, so
  the text that reaches the buffer differs from the text of the whole.\<close>

lemma toString_split_character:
  "toString [0xC3, 0xA9] = [0xE9] \<and> toString [0xC3] @ toString [0xA9] = [0xFFFD, 0xFFFD]"
  by (simp add: decode_one_def is_cont_def REPLACEMENT_def)

section \<open>Chunk-boundary invariance of the decoder\<close>

text \<open>
  C2. The claim: for every byte sequence and every way of splitting it into chunks,
  feeding the chunks one at a time decodes the same messages as feeding the whole
  sequence as one chunk.

  The claim fails where the decoder meets a header without a length: it empties the
  whole buffer, and how much is in the buffer at that moment depends on the chunking.
  Below, the first chunk ends with a header that has no length and the second is a
  complete frame; fed one at a time the frame is decoded, fed as one chunk it is
  discarded together with the bad header.
\<close>

theorem chunk_boundary_counterexample:
  "\<forall>rt. decoded (fold (stdout_data rt)
               [utf8_encode (js ''x'' @ HEADER_END), utf8_encode (frame (js ''{}''))] initial)
           = [js ''{}'']
      \<and> decoded (stdout_data rt
               (concat [utf8_encode (js ''x'' @ HEADER_END), utf8_encode (frame (js ''{}''))])
               initial)
           = []"
proof -
  have t2: "toString (utf8_encode (js ''x'' @ HEADER_END)) = js ''x'' @ HEADER_END"
    by code_simp
  have t3: "scanFrames (js ''x'' @ HEADER_END) = ([], [], True)"
    by code_simp
  have t4: "scanFrames ([] @ toString (utf8_encode (frame (js ''{}'')))) = ([js ''{}''], [], False)"
    by code_simp
  have t5: "scanFrames (toString (utf8_encode (js ''x'' @ HEADER_END) @ utf8_encode (frame (js ''{}''))))
              = ([], [], True)"
    by code_simp
  show ?thesis
    using t2 t3 t4 t5
    by (simp add: stdout_data_def parseMessages_scanFrames initial_def)
qed

text \<open>
  C2, amended. Take any state whose buffer holds no complete frame, and any chunks
  such that (a) no chunk boundary cuts a multi-byte character, that is, decoding the
  chunks one by one gives the text of the whole, and (b) decoding the whole as one
  chunk does not meet a header without a length. Then feeding the chunks one at a time
  and feeding them as one chunk end in the same state: the same bodies decoded in the
  same order, the same messages handled, the same text left in the buffer.
\<close>

theorem chunk_boundary_invariance:
  assumes "toString (concat chunks) = concat (map toString chunks)"
    and "scanFrames (messageBuffer s) = ([], messageBuffer s, False)"
    and "\<not> invalid_header (messageBuffer s @ toString (concat chunks))"
  shows "fold (stdout_data rt) chunks s = stdout_data rt (concat chunks) s"
proof -
  have "stdout_data rt (concat chunks) s =
          (case scanFrames (messageBuffer s @ concat (map toString chunks)) of
             (bodies, rest, bad) \<Rightarrow> deliver rt bodies (s\<lparr>messageBuffer := rest\<rparr>))"
    by (simp add: stdout_data_def parseMessages_scanFrames assms(1))
  moreover have "fold (stdout_data rt) chunks s = \<dots>"
    using assms by (intro fold_stdout_data) simp_all
  ultimately show ?thesis by simp
qed

theorem chunk_boundary_invariance_witness:
  "\<forall>rt.
     toString (concat [utf8_encode (js ''Content-Len''),
                       utf8_encode (js ''gth: 3'' @ HEADER_END @ [0x22]),
                       utf8_encode [0xE9], utf8_encode [0x22]])
       = concat (map toString [utf8_encode (js ''Content-Len''),
                       utf8_encode (js ''gth: 3'' @ HEADER_END @ [0x22]),
                       utf8_encode [0xE9], utf8_encode [0x22]])
     \<and> scanFrames (messageBuffer initial) = ([], messageBuffer initial, False)
     \<and> \<not> invalid_header (messageBuffer initial @
            toString (concat [utf8_encode (js ''Content-Len''),
                       utf8_encode (js ''gth: 3'' @ HEADER_END @ [0x22]),
                       utf8_encode [0xE9], utf8_encode [0x22]]))
     \<and> fold (stdout_data rt) [utf8_encode (js ''Content-Len''),
                       utf8_encode (js ''gth: 3'' @ HEADER_END @ [0x22]),
                       utf8_encode [0xE9], utf8_encode [0x22]] initial
       = stdout_data rt (concat [utf8_encode (js ''Content-Len''),
                       utf8_encode (js ''gth: 3'' @ HEADER_END @ [0x22]),
                       utf8_encode [0xE9], utf8_encode [0x22]]) initial
     \<and> decoded (stdout_data rt (concat [utf8_encode (js ''Content-Len''),
                       utf8_encode (js ''gth: 3'' @ HEADER_END @ [0x22]),
                       utf8_encode [0xE9], utf8_encode [0x22]]) initial)
       = [ [0x22, 0xE9, 0x22] ]"
proof -
  define chunks where "chunks = [utf8_encode (js ''Content-Len''),
                       utf8_encode (js ''gth: 3'' @ HEADER_END @ [0x22]),
                       utf8_encode [0xE9], utf8_encode [0x22]]"
  have h1: "toString (concat chunks) = concat (map toString chunks)"
    unfolding chunks_def by code_simp
  have h2: "scanFrames (messageBuffer initial) = ([], messageBuffer initial, False)"
    by (simp add: initial_def scanFrames_no_header HEADER_END_def)
  have sc: "scanFrames ([] @ toString (concat chunks)) = ([ [0x22, 0xE9, 0x22] ], [], False)"
    unfolding chunks_def by code_simp
  have h3: "\<not> invalid_header (messageBuffer initial @ toString (concat chunks))"
    using sc by (simp add: initial_def invalid_header_def)
  have d: "decoded (stdout_data rt (concat chunks) initial) = [ [0x22, 0xE9, 0x22] ]" for rt
    using sc by (simp add: stdout_data_def parseMessages_scanFrames initial_def)
  show ?thesis
    using h1 h2 h3 d chunk_boundary_invariance [OF h1 h2 h3]
    unfolding chunks_def by blast
qed

section \<open>Round trip of a frame\<close>

lemma unat_digit: "k < 10 \<Longrightarrow> unat (48 + word_of_nat k :: 16 word) = 48 + k"
proof -
  assume k: "k < 10"
  have "(48 + word_of_nat k :: 16 word) = word_of_nat (48 + k)" by simp
  then have "unat (48 + word_of_nat k :: 16 word) = (48 + k) mod 2 ^ LENGTH(16)"
    by (simp only: unat_of_nat)
  with k show ?thesis by simp
qed

lemma digit_of_nat: "k < 10 \<Longrightarrow> is_digit (48 + word_of_nat k)"
  by (simp add: is_digit_def word_le_nat_alt unat_digit)

lemma decimal_digits: "\<forall>c\<in>set (decimal n). is_digit c"
proof (induction n rule: decimal.induct)
  case (1 n)
  show ?case
  proof (cases "n < 10")
    case True
    then show ?thesis by (subst decimal.simps) (simp add: digit_of_nat)
  next
    case False
    then show ?thesis
      using "1.IH" by (subst decimal.simps) (simp add: digit_of_nat)
  qed
qed

lemma decimal_not_empty: "decimal n \<noteq> []"
  by (subst decimal.simps) simp

lemma parseInt_decimal: "parseInt (decimal n) = n"
proof (induction n rule: decimal.induct)
  case (1 n)
  show ?case
  proof (cases "n < 10")
    case True
    then show ?thesis
      by (subst decimal.simps) (simp add: parseInt_def unat_digit)
  next
    case False
    have "parseInt (decimal n) = 10 * parseInt (decimal (n div 10)) + n mod 10"
      using False by (subst decimal.simps) (simp add: parseInt_def unat_digit)
    with "1.IH"[OF False] show ?thesis by simp
  qed
qed

lemma indexOf_first:
  assumes "needle \<noteq> []" and "hd needle \<notin> set xs"
  shows "indexOf (xs @ needle @ ys) needle = Some (length xs)"
  using assms(2)
proof (induction xs)
  case Nil
  from assms(1) show ?case by (cases needle) simp_all
next
  case (Cons x xs)
  from assms(1) Cons.prems have "\<not> prefix needle (x # xs @ needle @ ys)"
    by (cases needle) auto
  with Cons show ?case by simp
qed

lemma is_digit_ascii: "is_digit c \<Longrightarrow> c < 0x80 \<and> c \<noteq> 0x0D"
  by (auto simp: is_digit_def word_le_nat_alt word_less_nat_alt)

lemma byteLength_ascii: "ascii s \<Longrightarrow> byteLength s = length s"
  by (induction s rule: byteLength.induct)
     (auto simp: ascii_def unit_bytes_def is_high_surrogate_def word_le_nat_alt word_less_nat_alt)

lemma utf8_encode_ascii: "ascii s \<Longrightarrow> utf8_encode s = map ucast s"
  by (induction s rule: utf8_encode.induct)
     (auto simp: ascii_def encode_unit_def is_high_surrogate_def word_le_nat_alt word_less_nat_alt)

lemma ucast_ascii:
  fixes c :: "16 word"
  assumes "c < 0x80"
  shows "(ucast c :: 8 word) < 0x80" and "(ucast (ucast c :: 8 word) :: 16 word) = c"
proof -
  from assms have u: "unat c < 128" by (simp add: word_less_nat_alt)
  then have v: "unat (ucast c :: 8 word) = unat c"
    by (simp add: unsigned_ucast_eq take_bit_nat_eq_self)
  with u show "(ucast c :: 8 word) < 0x80"
    by (simp add: word_less_nat_alt)
  have "unat (ucast (ucast c :: 8 word) :: 16 word) = unat c"
    using u by (simp add: unsigned_ucast_eq unsigned_take_bit_eq take_bit_nat_eq_self)
  then show "(ucast (ucast c :: 8 word) :: 16 word) = c"
    by (simp add: word_unat_eq_iff)
qed

lemma toString_utf8_encode_ascii: "ascii s \<Longrightarrow> toString (utf8_encode s) = s"
proof -
  assume a: "ascii s"
  then have "\<forall>b\<in>set (map ucast s :: buffer). b < 0x80"
    by (auto simp: ascii_def ucast_ascii)
  then have "toString (map ucast s :: buffer) = map ucast (map ucast s :: buffer)"
    by (rule toString_ascii)
  also have "\<dots> = s"
    using a by (induction s) (simp_all add: ascii_def ucast_ascii)
  finally show ?thesis
    using a by (simp add: utf8_encode_ascii)
qed

lemma ascii_append [simp]: "ascii (xs @ ys) \<longleftrightarrow> ascii xs \<and> ascii ys"
  by (auto simp: ascii_def)

lemma ascii_decimal: "ascii (decimal n)"
  using decimal_digits[of n] by (auto simp: ascii_def dest: is_digit_ascii)

lemma ascii_literals: "ascii (js ''Content-Length: '')" "ascii HEADER_END"
  by (simp_all add: ascii_def js_def HEADER_END_def)

lemma ascii_frame: "ascii content \<Longrightarrow> ascii (frame content)"
  by (simp add: frame_def ascii_decimal ascii_literals)

lemma scanFrames_frame:
  assumes "byteLength content = length content"
  shows "scanFrames (frame content) = ([content], [], False)"
proof -
  define n where "n = length content"
  define header where "header = js ''Content-Length: '' @ decimal n"
  have fr: "frame content = header @ HEADER_END @ content"
    by (simp add: frame_def header_def n_def assms)
  have nocr: "0x0D \<notin> set header"
    using decimal_digits[of n]
    by (auto simp: header_def js_def dest: is_digit_ascii)
  have ix: "indexOf (frame content) HEADER_END = Some (length header)"
    unfolding fr using nocr by (intro indexOf_first) (simp_all add: HEADER_END_def)
  have sl: "slice_js 0 (length header) (frame content) = header"
    by (simp add: fr slice_js_def)
  have tw: "takeWhile is_digit (decimal n) = decimal n"
    using decimal_digits[of n] by (simp add: takeWhile_eq_all_conv)
  have ex: "exec_Content_Length header = Some (decimal n)"
  proof -
    have "header \<noteq> []" by (simp add: header_def js_def)
    then obtain c cs where h: "header = c # cs" by (cases header) auto
    have "prefix (js ''Content-Length: '') header" by (simp add: header_def)
    moreover have "drop 16 header = decimal n" by (simp add: header_def js_def)
    ultimately show ?thesis
      using h by (simp add: Let_def tw decimal_not_empty)
  qed
  have len: "length (frame content) = length header + 4 + n"
    by (simp add: fr HEADER_END_def n_def)
  have body: "slice_js (length header + 4) (length header + 4 + n) (frame content) = content"
    by (simp add: fr slice_js_def HEADER_END_def n_def)
  have rest: "slice_from (length header + 4 + n) (frame content) = []"
    by (simp add: slice_from_def len)
  have e: "scanFrames [] = ([], [], False)"
    by (simp add: scanFrames_no_header HEADER_END_def)
  show ?thesis
    using ix sl ex len body rest e
    by (subst scanFrames.simps) (simp add: Let_def parseInt_decimal)
qed

text \<open>A frame whose body is ASCII survives the round trip: written by the encoder and
  read back, the decoder cuts out exactly that body and leaves the buffer empty.\<close>

lemma round_trip_ascii:
  assumes "ascii content" and "messageBuffer s = []"
  shows "decoded (stdout_data rt (utf8_encode (frame content)) s) = decoded s @ [content]"
    and "messageBuffer (stdout_data rt (utf8_encode (frame content)) s) = []"
proof -
  have t: "toString (utf8_encode (frame content)) = frame content"
    using assms(1) by (simp add: toString_utf8_encode_ascii ascii_frame)
  have sc: "scanFrames (frame content) = ([content], [], False)"
    using assms(1) by (intro scanFrames_frame byteLength_ascii)
  show "decoded (stdout_data rt (utf8_encode (frame content)) s) = decoded s @ [content]"
    and "messageBuffer (stdout_data rt (utf8_encode (frame content)) s) = []"
    by (simp_all add: stdout_data_def parseMessages_scanFrames assms(2) t sc)
qed

text \<open>
  C3. The claim: encoding a message into a frame and feeding the encoded bytes back
  through the decoder yields exactly one message, equal to the original.

  The encoder states the length of the body in bytes (\<open>Buffer.byteLength\<close>); the decoder
  counts the body in UTF-16 code units (\<open>messageBuffer.length\<close>, \<open>slice\<close>). For a body
  with a character outside ASCII the stated length exceeds the number of code units,
  and the decoder waits for more text: nothing is decoded, and the frame stays in the
  buffer. The theorem evaluates the decoder on the bytes of such a frame.
\<close>

theorem round_trip_non_ascii_decodes_nothing:
  "\<forall>rt. length request_with_accent = 124
      \<and> byteLength request_with_accent = 125
      \<and> decoded (stdout_data rt (utf8_encode (frame request_with_accent)) initial) = []
      \<and> messageBuffer (stdout_data rt (utf8_encode (frame request_with_accent)) initial)
          = frame request_with_accent"
proof -
  have l: "length request_with_accent = 124" "byteLength request_with_accent = 125"
    by code_simp+
  have sc: "scanFrames ([] @ toString (utf8_encode (frame request_with_accent)))
              = ([], frame request_with_accent, False)"
    by code_simp
  show ?thesis
    using l sc by (simp add: stdout_data_def parseMessages_scanFrames initial_def)
qed

section \<open>What each step does to the fields\<close>

lemma handleMessage_fields [simp]:
  "codelldbProcess (handleMessage m s) = codelldbProcess s"
  "requestSeq (handleMessage m s) = requestSeq s"
  "threadId (handleMessage m s) = threadId s"
  "frameId (handleMessage m s) = frameId s"
  "transport (handleMessage m s) = transport s"
  "now (handleMessage m s) = now s"
  "timers (handleMessage m s) = timers s"
  "promises (handleMessage m s) = promises s"
  by (simp_all add: handleMessage_def resolve_def reject_def emit_def Let_def
      split: message.splits option.splits)

lemma onTimeout_fields [simp]:
  "codelldbProcess (onTimeout t s) = codelldbProcess s"
  "messageBuffer (onTimeout t s) = messageBuffer s"
  "requestSeq (onTimeout t s) = requestSeq s"
  "threadId (onTimeout t s) = threadId s"
  "frameId (onTimeout t s) = frameId s"
  "transport (onTimeout t s) = transport s"
  "now (onTimeout t s) = now s"
  "timers (onTimeout t s) = timers s"
  "promises (onTimeout t s) = promises s"
  "decoded (onTimeout t s) = decoded s"
  "emitted (onTimeout t s) = emitted s"
  by (simp_all add: onTimeout_def reject_def)

lemma fold_onTimeout_fields [simp]:
  "codelldbProcess (fold onTimeout ts s) = codelldbProcess s"
  "messageBuffer (fold onTimeout ts s) = messageBuffer s"
  "requestSeq (fold onTimeout ts s) = requestSeq s"
  "threadId (fold onTimeout ts s) = threadId s"
  "frameId (fold onTimeout ts s) = frameId s"
  "transport (fold onTimeout ts s) = transport s"
  "now (fold onTimeout ts s) = now s"
  "timers (fold onTimeout ts s) = timers s"
  "promises (fold onTimeout ts s) = promises s"
  by (induction ts arbitrary: s; simp)+

lemma advance_fields [simp]:
  "codelldbProcess (advance dt s) = codelldbProcess s"
  "messageBuffer (advance dt s) = messageBuffer s"
  "requestSeq (advance dt s) = requestSeq s"
  "threadId (advance dt s) = threadId s"
  "frameId (advance dt s) = frameId s"
  "transport (advance dt s) = transport s"
  "now (advance dt s) = now s + dt"
  "promises (advance dt s) = promises s"
  by (simp_all add: advance_def Let_def)

lemma sendRequest_fields [simp]:
  "fst (sendRequest rt cmd args s) = promises s"
  "codelldbProcess (snd (sendRequest rt cmd args s)) = codelldbProcess s"
  "messageBuffer (snd (sendRequest rt cmd args s)) = messageBuffer s"
  "requestSeq (snd (sendRequest rt cmd args s)) = requestSeq s + 1"
  "threadId (snd (sendRequest rt cmd args s)) = threadId s"
  "frameId (snd (sendRequest rt cmd args s)) = frameId s"
  "transport (snd (sendRequest rt cmd args s)) =
     transport s @ written rt (codelldbProcess s) \<lparr>seq = requestSeq s, command = cmd, arguments = args\<rparr>"
  "now (snd (sendRequest rt cmd args s)) = now s"
  "promises (snd (sendRequest rt cmd args s)) = promises s + 1"
  "pendingRequests (snd (sendRequest rt cmd args s)) = (pendingRequests s)(requestSeq s \<mapsto> promises s)"
  "timers (snd (sendRequest rt cmd args s)) =
     timers s @ [\<lparr>deadline = now s + REQUEST_TIMEOUT, timer_seq = requestSeq s,
                  timer_command = cmd, timer_promise = promises s\<rparr>]"
  "settled (snd (sendRequest rt cmd args s)) = settled s"
  "emitted (snd (sendRequest rt cmd args s)) = emitted s"
  "decoded (snd (sendRequest rt cmd args s)) = decoded s"
  by (simp_all add: sendRequest_def Let_def written_def split: option.splits)

lemma await_request_fields [simp]:
  "codelldbProcess (snd (await_request rt ad cmd args s)) = codelldbProcess s"
  "requestSeq (snd (await_request rt ad cmd args s)) = requestSeq s + 1"
  "threadId (snd (await_request rt ad cmd args s)) = threadId s"
  "frameId (snd (await_request rt ad cmd args s)) = frameId s"
  "transport (snd (await_request rt ad cmd args s)) =
     transport s @ written rt (codelldbProcess s) \<lparr>seq = requestSeq s, command = cmd, arguments = args\<rparr>"
  by (simp_all add: await_request_def Let_def split: reaction.splits)

lemma await_request_outcome:
  "fst (await_request rt ad cmd args s) =
     (case respond ad \<lparr>seq = requestSeq s, command = cmd, arguments = args\<rparr> of
        Reply ok text b \<Rightarrow>
          if ok then Resolved (Response (requestSeq s) ok text b) else Rejected (failure_text text)
      | Silence \<Rightarrow> Rejected (timeout_text cmd))"
  by (simp add: await_request_def Let_def split: reaction.splits)

section \<open>One outcome per request\<close>

lemma handleMessage_Response:
  "handleMessage (Response r ok text b) s =
     (case pendingRequests s r of
        None \<Rightarrow> s
      | Some pr \<Rightarrow>
          s\<lparr>pendingRequests := (pendingRequests s)(r := None),
            settled := settled s @ [(pr, response_outcome (Response r ok text b))]\<rparr>)"
  by (simp add: handleMessage_def resolve_def reject_def response_outcome_def Let_def
      split: option.splits)

lemma handleMessage_other:
  "pendingRequests (handleMessage (Event e b) s) = pendingRequests s"
  "settled (handleMessage (Event e b) s) = settled s"
  "handleMessage OtherMessage s = s"
  by (simp_all add: handleMessage_def emit_def)

lemma consistent_handleMessage: "consistent s \<Longrightarrow> consistent (handleMessage m s)"
proof (cases m)
  case (Response r ok tx b)
  assume c: "consistent s"
  show ?thesis
  proof (cases "pendingRequests s r")
    case None
    with c Response show ?thesis by (simp add: handleMessage_Response)
  next
    case (Some pr)
    with c have "pr < promises s" by (auto simp: consistent_def)
    with c Some Response show ?thesis
      by (auto simp: handleMessage_Response consistent_def split: if_splits)
  qed
next
  case (Event e b)
  assume "consistent s"
  then show ?thesis
    using Event by (simp add: consistent_def handleMessage_other)
next
  case OtherMessage
  assume "consistent s"
  then show ?thesis using OtherMessage by (simp add: handleMessage_other)
qed

lemma consistent_sendRequest: "consistent s \<Longrightarrow> consistent (snd (sendRequest rt cmd args s))"
  unfolding consistent_def
  by (simp add: REQUEST_TIMEOUT_def) (fastforce split: if_splits)

lemma consistent_onTimeout:
  "consistent s \<Longrightarrow> timer_promise t < promises s \<Longrightarrow> consistent (onTimeout t s)"
  unfolding consistent_def onTimeout_def reject_def
  by (auto split: if_splits)

lemma consistent_fold_onTimeout:
  "consistent s \<Longrightarrow> \<forall>t\<in>set ts. timer_promise t < promises s \<Longrightarrow>
   consistent (fold onTimeout ts s)"
  by (induction ts arbitrary: s) (simp_all add: consistent_onTimeout)

lemma consistent_advance: "consistent s \<Longrightarrow> consistent (advance dt s)"
proof -
  assume c: "consistent s"
  define s0 where
    "s0 = s\<lparr>now := now s + dt, timers := filter (\<lambda>x. \<not> deadline x \<le> now s + dt) (timers s)\<rparr>"
  have "consistent s0"
    using c unfolding consistent_def s0_def by auto
  moreover have "\<forall>t\<in>set (filter (\<lambda>x. deadline x \<le> now s + dt) (timers s)).
                   timer_promise t < promises s0"
    using c unfolding consistent_def s0_def by auto
  ultimately show ?thesis
    unfolding advance_def Let_def s0_def[symmetric] by (rule consistent_fold_onTimeout)
qed

lemma consistent_fold_handleMessage:
  "consistent s \<Longrightarrow> consistent (fold handleMessage ms s)"
  by (induction ms arbitrary: s) (simp_all add: consistent_handleMessage)

lemma consistent_deliver: "consistent s \<Longrightarrow> consistent (deliver rt bodies s)"
proof -
  assume "consistent s"
  then have "consistent (s\<lparr>decoded := decoded s @ bodies\<rparr>)"
    by (simp add: consistent_def)
  then show ?thesis
    unfolding deliver_def by (rule consistent_fold_handleMessage)
qed

lemma consistent_stdout_data: "consistent s \<Longrightarrow> consistent (stdout_data rt chunk s)"
proof -
  assume c: "consistent s"
  have "consistent (s\<lparr>messageBuffer := b\<rparr>)" for b
    using c by (simp add: consistent_def)
  then show ?thesis
    by (simp add: stdout_data_def parseMessages_scanFrames consistent_deliver split: prod.splits)
qed

lemma consistent_step: "consistent s \<Longrightarrow> consistent (step rt e s)"
  by (cases e) (simp_all add: consistent_sendRequest consistent_stdout_data consistent_advance)

lemma consistent_run: "consistent s \<Longrightarrow> consistent (run rt evs s)"
  unfolding run_def by (induction evs arbitrary: s) (simp_all add: consistent_step)

lemma consistent_initial: "consistent initial"
  by (simp add: consistent_def initial_def)

lemma outcomes_settled_append [simp]:
  "outcomes p (s\<lparr>settled := settled s @ [(pr, oc)]\<rparr>) = outcomes p s @ (if pr = p then [oc] else [])"
  by (simp add: outcomes_def)

lemma outcomes_pending_update [simp]:
  "outcomes p (s\<lparr>pendingRequests := m\<rparr>) = outcomes p s"
  by (simp add: outcomes_def)

lemma outcomes_cong: "settled s' = settled s \<Longrightarrow> outcomes p s' = outcomes p s"
  by (simp add: outcomes_def)


lemma tracked_inI:
  "\<forall>q'. pendingRequests s q' = Some p \<longrightarrow> q' = q \<Longrightarrow>
   \<forall>t\<in>S. timer_promise t = p \<or> timer_seq t = q \<longrightarrow>
          t = \<lparr>deadline = d, timer_seq = q, timer_command = cmd, timer_promise = p\<rparr> \<Longrightarrow>
   (pendingRequests s q = Some p \<and> outcomes p s = []
        \<and> \<lparr>deadline = d, timer_seq = q, timer_command = cmd, timer_promise = p\<rparr> \<in> S)
      \<or> (pendingRequests s q = None
          \<and> (\<exists>oc. outcomes p s = [oc] \<and> F (now s) oc)) \<Longrightarrow>
   q < requestSeq s \<Longrightarrow> p < promises s \<Longrightarrow> tracked_in F S p q cmd d s"
  unfolding tracked_in_def by (intro conjI) assumption+


lemma tracked_inD:
  assumes "tracked_in F S p q cmd d s"
  shows "\<forall>q'. pendingRequests s q' = Some p \<longrightarrow> q' = q"
    and "\<forall>t\<in>S. timer_promise t = p \<or> timer_seq t = q \<longrightarrow>
          t = \<lparr>deadline = d, timer_seq = q, timer_command = cmd, timer_promise = p\<rparr>"
    and "(pendingRequests s q = Some p \<and> outcomes p s = []
        \<and> \<lparr>deadline = d, timer_seq = q, timer_command = cmd, timer_promise = p\<rparr> \<in> S)
      \<or> (pendingRequests s q = None
          \<and> (\<exists>oc. outcomes p s = [oc] \<and> F (now s) oc))"
    and "q < requestSeq s" and "p < promises s"
  using assms unfolding tracked_in_def by blast+

lemma tracked_in_onTimeout:
  assumes "tracked_in F (insert t S) p q cmd d s" and "deadline t \<le> now s"
    and tmo: "\<And>n. d \<le> n \<Longrightarrow> F n (Rejected (timeout_text cmd))"
  shows "tracked_in F S p q cmd d (onTimeout t s)"
proof -
  note a = tracked_inD[OF assms(1)]
  have a2: "\<forall>t\<in>S. timer_promise t = p \<or> timer_seq t = q \<longrightarrow>
          t = \<lparr>deadline = d, timer_seq = q, timer_command = cmd, timer_promise = p\<rparr>"
    using a(2) by blast
  show ?thesis
  proof (cases "pendingRequests s (timer_seq t)")
    case None
    then have h: "onTimeout t s = s" by (simp add: onTimeout_def)
    have "timer_seq t = q \<Longrightarrow> pendingRequests s q = None" using None by simp
    moreover have "timer_seq t \<noteq> q \<Longrightarrow>
      t \<noteq> \<lparr>deadline = d, timer_seq = q, timer_command = cmd, timer_promise = p\<rparr>" by auto
    ultimately have b3: "(pendingRequests s q = Some p \<and> outcomes p s = []
        \<and> \<lparr>deadline = d, timer_seq = q, timer_command = cmd, timer_promise = p\<rparr> \<in> S)
      \<or> (pendingRequests s q = None
          \<and> (\<exists>oc. outcomes p s = [oc] \<and> F (now s) oc))"
      using a(3) by (cases "timer_seq t = q") auto
    show ?thesis
      unfolding h using a(1) a2 b3 a(4,5) by (rule tracked_inI)
  next
    case (Some pr)
    define s' where "s' = s\<lparr>pendingRequests := (pendingRequests s)(timer_seq t := None),
            settled := settled s @ [(timer_promise t, Rejected (timeout_text (timer_command t)))]\<rparr>"
    have h: "onTimeout t s = s'"
      using Some by (simp add: onTimeout_def reject_def s'_def)
    have f: "pendingRequests s' = (pendingRequests s)(timer_seq t := None)" "now s' = now s"
      "requestSeq s' = requestSeq s" "promises s' = promises s"
      "outcomes p s' = outcomes p s @
         (if timer_promise t = p then [Rejected (timeout_text (timer_command t))] else [])"
      by (simp_all add: s'_def outcomes_def)
    have b1: "\<forall>q'. pendingRequests s' q' = Some p \<longrightarrow> q' = q"
      using a(1) by (simp add: f)
    have b3: "(pendingRequests s' q = Some p \<and> outcomes p s' = []
        \<and> \<lparr>deadline = d, timer_seq = q, timer_command = cmd, timer_promise = p\<rparr> \<in> S)
      \<or> (pendingRequests s' q = None
          \<and> (\<exists>oc. outcomes p s' = [oc] \<and> F (now s') oc))"
    proof (cases "timer_promise t = p \<or> timer_seq t = q")
      case True
      with a(2) have t: "t = \<lparr>deadline = d, timer_seq = q, timer_command = cmd, timer_promise = p\<rparr>"
        by blast
      then have tf: "timer_seq t = q" "timer_promise t = p" "timer_command t = cmd" "deadline t = d"
        by simp_all
      from Some tf a(3) have o: "outcomes p s = []" by auto
      have "F (now s) (Rejected (timeout_text cmd))"
        using assms(2) tf by (intro tmo) simp
      then show ?thesis
        using tf o by (simp add: f)
    next
      case False
      then have ne: "timer_promise t \<noteq> p" "timer_seq t \<noteq> q" by blast+
      then have "t \<noteq> \<lparr>deadline = d, timer_seq = q, timer_command = cmd, timer_promise = p\<rparr>"
        by auto
      then show ?thesis
        using a(3) ne by (auto simp: f)
    qed
    show ?thesis
      unfolding h using b1 a2 b3 a(4,5) by (intro tracked_inI) (simp_all add: f)
  qed
qed

lemma tracked_in_fold_onTimeout:
  assumes tmo: "\<And>n. d \<le> n \<Longrightarrow> F n (Rejected (timeout_text cmd))"
  shows "tracked_in F (set ts \<union> S) p q cmd d s \<Longrightarrow> \<forall>t\<in>set ts. deadline t \<le> now s \<Longrightarrow>
   tracked_in F S p q cmd d (fold onTimeout ts s)"
proof (induction ts arbitrary: s)
  case Nil
  then show ?case by simp
next
  case (Cons t ts)
  from Cons.prems have "tracked_in F (insert t (set ts \<union> S)) p q cmd d s" by simp
  moreover from Cons.prems(2) have "deadline t \<le> now s" by simp
  ultimately have "tracked_in F (set ts \<union> S) p q cmd d (onTimeout t s)"
    using tmo by (rule tracked_in_onTimeout)
  moreover have "\<forall>x\<in>set ts. deadline x \<le> now (onTimeout t s)"
    using Cons.prems(2) by simp
  ultimately have "tracked_in F S p q cmd d (fold onTimeout ts (onTimeout t s))"
    by (rule Cons.IH)
  then show ?case by simp
qed











lemma tracked_after_send:
  assumes "consistent s"
  shows "tracked (promises s) (requestSeq s) cmd (now s + REQUEST_TIMEOUT)
           (snd (sendRequest rt cmd args s))"
proof -
  define s' where "s' = snd (sendRequest rt cmd args s)"
  define p where "p = promises s"
  define q where "q = requestSeq s"
  from assms have c1: "\<And>q' p'. pendingRequests s q' = Some p' \<Longrightarrow> q' < q \<and> p' < p"
    and c3: "\<And>t. t \<in> set (timers s) \<Longrightarrow> timer_seq t < q \<and> timer_promise t < p \<and> now s < deadline t"
    and c4: "\<And>x. x \<in> set (settled s) \<Longrightarrow> fst x < p"
    unfolding consistent_def p_def q_def by blast+
  have np: "pendingRequests s q' \<noteq> Some p" for q'
    using c1[of q' p] by auto
  have nt: "timer_promise t \<noteq> p \<and> timer_seq t \<noteq> q" if "t \<in> set (timers s)" for t
    using c3[OF that] by auto
  have ns: "fst x \<noteq> p" if "x \<in> set (settled s)" for x
    using c4[OF that] by auto
  have o: "outcomes p s = []"
    using ns by (simp add: outcomes_def filter_empty_conv)
  have f: "pendingRequests s' = (pendingRequests s)(q \<mapsto> p)"
    "outcomes p s' = outcomes p s" "now s' = now s" "requestSeq s' = q + 1"
    "promises s' = p + 1"
    "timers s' = timers s @ [\<lparr>deadline = now s + REQUEST_TIMEOUT, timer_seq = q,
                  timer_command = cmd, timer_promise = p\<rparr>]"
    by (simp_all add: s'_def outcomes_def p_def q_def)
  have b1: "\<forall>q'. pendingRequests s' q' = Some p \<longrightarrow> q' = q"
    using np by (simp add: f)
  have b2: "\<forall>t\<in>set (timers s'). timer_promise t = p \<or> timer_seq t = q \<longrightarrow>
          t = \<lparr>deadline = now s + REQUEST_TIMEOUT, timer_seq = q, timer_command = cmd,
               timer_promise = p\<rparr>"
    using nt by (auto simp: f)
  have b3: "(pendingRequests s' q = Some p \<and> outcomes p s' = []
        \<and> \<lparr>deadline = now s + REQUEST_TIMEOUT, timer_seq = q, timer_command = cmd,
           timer_promise = p\<rparr> \<in> set (timers s'))
      \<or> (pendingRequests s' q = None
          \<and> (\<exists>oc. outcomes p s' = [oc]
                \<and> final_outcome q cmd (now s + REQUEST_TIMEOUT) (now s') oc))"
    using o by (simp add: f)
  have "tracked_in (final_outcome q cmd (now s + REQUEST_TIMEOUT)) (set (timers s')) p q cmd (now s + REQUEST_TIMEOUT) s'"
    by (rule tracked_inI[where F = "final_outcome q cmd (now s + REQUEST_TIMEOUT)", OF b1 b2 b3])
       (simp_all add: f(4,5))
  moreover have "\<forall>t\<in>set (timers s'). now s' < deadline t"
    using c3 by (auto simp: f REQUEST_TIMEOUT_def)
  ultimately show ?thesis
    by (simp add: tracked_def s'_def p_def q_def)
qed

lemma advance_times_out:
  assumes "tracked p q cmd d s" and pend: "pendingRequests s q = Some p"
    and due: "d \<le> now s + dt"
  shows "outcomes p (advance dt s) = [Rejected (timeout_text cmd)]"
proof -
  define F where "F = (\<lambda>(n::nat) oc. oc = Rejected (timeout_text cmd))"
  define T0 where "T0 = \<lparr>deadline = d, timer_seq = q, timer_command = cmd, timer_promise = p\<rparr>"
  define due where "due = filter (\<lambda>x. deadline x \<le> now s + dt) (timers s)"
  define rest where "rest = filter (\<lambda>x. \<not> deadline x \<le> now s + dt) (timers s)"
  define s0 where "s0 = s\<lparr>now := now s + dt, timers := rest\<rparr>"
  from assms(1) have ti: "tracked_in (final_outcome q cmd d) (set (timers s)) p q cmd d s"
    by (simp add: tracked_def)
  note a = tracked_inD[OF ti]
  from a(3) pend have o: "outcomes p s = []" and m: "T0 \<in> set (timers s)"
    by (simp_all add: T0_def)
  have u: "set due \<union> set rest = set (timers s)"
    by (auto simp: due_def rest_def)
  have f: "pendingRequests s0 = pendingRequests s" "outcomes p s0 = outcomes p s"
    "now s0 = now s + dt" "requestSeq s0 = requestSeq s" "promises s0 = promises s"
    by (simp_all add: s0_def outcomes_def)
  have b3: "(pendingRequests s0 q = Some p \<and> outcomes p s0 = []
        \<and> \<lparr>deadline = d, timer_seq = q, timer_command = cmd, timer_promise = p\<rparr> \<in> set (timers s))
      \<or> (pendingRequests s0 q = None
          \<and> (\<exists>oc. outcomes p s0 = [oc] \<and> F (now s0) oc))"
    using pend o m by (simp add: f T0_def)
  have "tracked_in F (set (timers s)) p q cmd d s0"
    by (rule tracked_inI[where F = F, OF _ a(2) b3]) (simp_all add: f a)
  then have "tracked_in F (set due \<union> set rest) p q cmd d s0"
    by (simp only: u)
  moreover have "\<forall>t\<in>set due. deadline t \<le> now s0"
    by (simp add: due_def f)
  ultimately have "tracked_in F (set rest) p q cmd d (fold onTimeout due s0)"
    by (intro tracked_in_fold_onTimeout) (simp_all add: F_def)
  moreover have adv: "advance dt s = fold onTimeout due s0"
    by (simp add: advance_def Let_def due_def rest_def s0_def)
  ultimately have r: "tracked_in F (set rest) p q cmd d (advance dt s)"
    by simp
  have "T0 \<notin> set rest"
    using due by (simp add: rest_def T0_def)
  with tracked_inD(3)[OF r] show ?thesis
    by (auto simp: F_def T0_def)
qed

lemma handleMessage_settles:
  assumes "pendingRequests s q = Some p" and "outcomes p s = []"
  shows "outcomes p (handleMessage (Response q ok tx b) s) = [response_outcome (Response q ok tx b)]"
  using assms by (simp add: handleMessage_Response outcomes_def)




text \<open>The awaited exchange of the operations agrees with the correlator: what the
  \<open>await\<close> yields or throws is the one outcome delivered to the promise of the request.\<close>

lemma await_request_delivers:
  assumes "consistent s"
  shows "outcomes (promises s) (snd (await_request rt ad cmd args s))
           = [fst (await_request rt ad cmd args s)]"
proof -
  define s1 where "s1 = snd (sendRequest rt cmd args s)"
  have t: "tracked (promises s) (requestSeq s) cmd (now s + REQUEST_TIMEOUT) s1"
    unfolding s1_def using assms by (rule tracked_after_send)
  have pend: "pendingRequests s1 (requestSeq s) = Some (promises s)"
    by (simp add: s1_def)
  from t have "tracked_in (final_outcome (requestSeq s) cmd (now s + REQUEST_TIMEOUT))
                 (set (timers s1)) (promises s) (requestSeq s) cmd (now s + REQUEST_TIMEOUT) s1"
    by (simp add: tracked_def)
  from tracked_inD(3)[OF this] pend have o: "outcomes (promises s) s1 = []"
    by simp
  show ?thesis
  proof (cases "respond ad \<lparr>seq = requestSeq s, command = cmd, arguments = args\<rparr>")
    case (Reply ok tx b)
    then show ?thesis
      using handleMessage_settles[OF pend o, of ok tx b]
      by (simp add: await_request_def Let_def s1_def[symmetric] response_outcome_def)
  next
    case Silence
    have "outcomes (promises s) (advance REQUEST_TIMEOUT s1) = [Rejected (timeout_text cmd)]"
      using t pend by (rule advance_times_out) (simp add: s1_def)
    with Silence show ?thesis
      by (simp add: await_request_def Let_def s1_def[symmetric])
  qed
qed

lemma consistent_await_request:
  "consistent s \<Longrightarrow> consistent (snd (await_request rt ad cmd args s))"
  by (simp add: await_request_def Let_def consistent_sendRequest consistent_handleMessage
      consistent_advance split: reaction.splits)

section \<open>Sequence numbers\<close>

lemma requestSeq_fold_handleMessage [simp]:
  "requestSeq (fold handleMessage ms s) = requestSeq s"
  by (induction ms arbitrary: s) simp_all

lemma requestSeq_stdout_data [simp]: "requestSeq (stdout_data rt chunk s) = requestSeq s"
  by (simp add: stdout_data_def parseMessages_scanFrames deliver_def split: prod.splits)

lemma requestSeq_step:
  "requestSeq (step rt e s) = (case e of Send _ _ \<Rightarrow> requestSeq s + 1 | _ \<Rightarrow> requestSeq s)"
  by (cases e) simp_all

lemma run_Cons [simp]: "run rt (e # evs) s = run rt evs (step rt e s)"
  by (simp add: run_def)

lemma run_Nil [simp]: "run rt [] s = s"
  by (simp add: run_def)

lemma requestSeq_run_mono: "requestSeq s \<le> requestSeq (run rt evs s)"
proof (induction evs arbitrary: s)
  case Nil
  show ?case by simp
next
  case (Cons e evs)
  have "requestSeq s \<le> requestSeq (step rt e s)"
    by (simp add: requestSeq_step split: event.splits)
  also have "\<dots> \<le> requestSeq (run rt evs (step rt e s))"
    by (rule Cons.IH)
  finally show ?case by simp
qed

lemma assigned_bounds:
  "x \<in> set (assigned rt evs s) \<Longrightarrow> requestSeq s \<le> x \<and> x < requestSeq (run rt evs s)"
proof (induction evs arbitrary: s)
  case Nil
  then show ?case by simp
next
  case (Cons e evs)
  show ?case
  proof (cases e)
    case (Send cmd args)
    show ?thesis
    proof (cases "x = requestSeq s")
      case True
      have "requestSeq s + 1 \<le> requestSeq (run rt evs (step rt e s))"
        using requestSeq_run_mono[of "step rt e s" rt evs] Send by simp
      with True show ?thesis by simp
    next
      case False
      with Cons.prems Send have "x \<in> set (assigned rt evs (step rt e s))" by simp
      from Cons.IH[OF this] Send show ?thesis by simp
    qed
  next
    case (Data chunk)
    with Cons.prems have "x \<in> set (assigned rt evs (step rt e s))" by simp
    from Cons.IH[OF this] Data show ?thesis by simp
  next
    case (Tick dt)
    with Cons.prems have "x \<in> set (assigned rt evs (step rt e s))" by simp
    from Cons.IH[OF this] Tick show ?thesis by simp
  qed
qed

lemma assigned_sorted: "sorted_wrt (<) (assigned rt evs s)"
proof (induction evs arbitrary: s)
  case Nil
  show ?case by simp
next
  case (Cons e evs)
  show ?case
  proof (cases e)
    case (Send cmd args)
    have "requestSeq s < x" if "x \<in> set (assigned rt evs (step rt e s))" for x
      using assigned_bounds[OF that] Send by simp
    with Cons.IH[of "step rt e s"] Send show ?thesis by simp
  next
    case (Data chunk)
    with Cons.IH[of "step rt e s"] show ?thesis by simp
  next
    case (Tick dt)
    with Cons.IH[of "step rt e s"] show ?thesis by simp
  qed
qed

text \<open>
  C4. In every run from a consistent state, the sequence numbers taken by the requests
  are strictly increasing, hence pairwise different, and lie between the counter at the
  start and the counter at the end; the number the next request will take is not
  pending, so registering a request never replaces a pending one; and no promise is
  pending under two sequence numbers.
\<close>

theorem sequence_numbers_never_reused:
  assumes "consistent s0"
  shows "sorted_wrt (<) (assigned rt evs s0)
       \<and> distinct (assigned rt evs s0)
       \<and> (\<forall>x\<in>set (assigned rt evs s0). requestSeq s0 \<le> x \<and> x < requestSeq (run rt evs s0))
       \<and> pendingRequests (run rt evs s0) (requestSeq (run rt evs s0)) = None
       \<and> (\<forall>x y pr. pendingRequests (run rt evs s0) x = Some pr
                   \<longrightarrow> pendingRequests (run rt evs s0) y = Some pr \<longrightarrow> x = y)"
proof -
  have c: "consistent (run rt evs s0)"
    using assms by (rule consistent_run)
  have "pendingRequests (run rt evs s0) (requestSeq (run rt evs s0)) = None"
  proof (cases "pendingRequests (run rt evs s0) (requestSeq (run rt evs s0))")
    case None
    then show ?thesis .
  next
    case (Some pr)
    with c have "requestSeq (run rt evs s0) < requestSeq (run rt evs s0)"
      unfolding consistent_def by blast
    then show ?thesis by simp
  qed
  moreover have "\<forall>x y pr. pendingRequests (run rt evs s0) x = Some pr
                   \<longrightarrow> pendingRequests (run rt evs s0) y = Some pr \<longrightarrow> x = y"
    using c unfolding consistent_def by blast
  moreover have "distinct (assigned rt evs s0)"
    using assigned_sorted[of rt evs s0] by (simp add: strict_sorted_iff)
  ultimately show ?thesis
    using assigned_sorted[of rt evs s0] assigned_bounds[of _ rt evs s0] by blast
qed

theorem sequence_numbers_never_reused_witness:
  "\<forall>rt.
     consistent initial
   \<and> assigned rt [Send (js ''stackTrace'') (StackTraceArgs 7 0 1), Tick 40000,
                   Send (js ''scopes'') (ScopesArgs 1), Send (js ''variables'') (VariablesArgs 100)]
        initial = [1, 2, 3]
   \<and> sorted_wrt (<) (assigned rt [Send (js ''stackTrace'') (StackTraceArgs 7 0 1), Tick 40000,
                   Send (js ''scopes'') (ScopesArgs 1), Send (js ''variables'') (VariablesArgs 100)]
        initial)
   \<and> pendingRequests (run rt [Send (js ''stackTrace'') (StackTraceArgs 7 0 1), Tick 40000,
                   Send (js ''scopes'') (ScopesArgs 1), Send (js ''variables'') (VariablesArgs 100)]
        initial) 4 = None"
proof
  fix rt
  define evs where "evs = [Send (js ''stackTrace'') (StackTraceArgs 7 0 1), Tick 40000,
                   Send (js ''scopes'') (ScopesArgs 1), Send (js ''variables'') (VariablesArgs 100)]"
  have c: "consistent initial"
    by (simp add: consistent_def initial_def)
  have a: "assigned rt evs initial = [1, 2, 3]"
    by (simp add: evs_def initial_def)
  have r: "requestSeq (run rt evs initial) = 4"
    by (simp add: evs_def initial_def)
  from sequence_numbers_never_reused [OF c, where rt = rt and evs = evs] r
  have "sorted_wrt (<) (assigned rt evs initial)
      \<and> pendingRequests (run rt evs initial) 4 = None"
    by simp
  with c a show "consistent initial
   \<and> assigned rt [Send (js ''stackTrace'') (StackTraceArgs 7 0 1), Tick 40000,
                   Send (js ''scopes'') (ScopesArgs 1), Send (js ''variables'') (VariablesArgs 100)]
        initial = [1, 2, 3]
   \<and> sorted_wrt (<) (assigned rt [Send (js ''stackTrace'') (StackTraceArgs 7 0 1), Tick 40000,
                   Send (js ''scopes'') (ScopesArgs 1), Send (js ''variables'') (VariablesArgs 100)]
        initial)
   \<and> pendingRequests (run rt [Send (js ''stackTrace'') (StackTraceArgs 7 0 1), Tick 40000,
                   Send (js ''scopes'') (ScopesArgs 1), Send (js ''variables'') (VariablesArgs 100)]
        initial) 4 = None"
    unfolding evs_def by blast
qed

section \<open>Operations without a thread\<close>


lemma setBreakpoint_fst:
  "fst (setBreakpoint rt ad config s) =
     (case fst (await_request rt ad (js ''setBreakpoints'')
                 (SetBreakpointsArgs (config_file config) [config_line config]) s) of
        Rejected e \<Rightarrow> failed e
      | Resolved response \<Rightarrow>
          (case response_body response of
             None \<Rightarrow> failed (cannot_read (js ''breakpoints''))
           | Some b \<Rightarrow>
               succeeded_with
                 (map (\<lambda>(index, bp). to_BreakpointInfo config index bp)
                    (enumerate 0 (case breakpoints b of None \<Rightarrow> [] | Some bps \<Rightarrow> bps)))))"
  by (simp add: setBreakpoint_def split: prod.splits outcome.splits option.splits)




section \<open>Inspecting variables\<close>

lemma variables_requests_Nil [simp]: "variables_requests q [] = []"
  by (simp add: variables_requests_def)

lemma variables_requests_Cons [simp]:
  "variables_requests q (r # rs) =
     \<lparr>seq = q, command = js ''variables'', arguments = VariablesArgs r\<rparr> # variables_requests (q + 1) rs"
  by (simp add: variables_requests_def enumerate_Suc_eq[of 0] split_def comp_def)

lemma getVariablesFromReference_snd:
  "snd (getVariablesFromReference rt ad ref s) =
     snd (await_request rt ad (js ''variables'') (VariablesArgs ref) s)"
  by (simp add: getVariablesFromReference_def split: prod.splits outcome.splits option.splits)

lemma getVariablesFromReference_fst:
  "fst (getVariablesFromReference rt ad ref s) =
     (case fst (await_request rt ad (js ''variables'') (VariablesArgs ref) s) of
        Rejected e \<Rightarrow> Inl e
      | Resolved response \<Rightarrow>
          (case response_body response of
             None \<Rightarrow> Inl (cannot_read (js ''variables''))
           | Some b \<Rightarrow> Inr (map to_Variable (case variables b of None \<Rightarrow> [] | Some vars \<Rightarrow> vars))))"
  by (simp add: getVariablesFromReference_def split: prod.splits outcome.splits option.splits)

lemma collectVariables_fields [simp]:
  "codelldbProcess (snd (collectVariables rt ad scs acc s)) = codelldbProcess s"
  "threadId (snd (collectVariables rt ad scs acc s)) = threadId s"
  "frameId (snd (collectVariables rt ad scs acc s)) = frameId s"
proof (induction scs arbitrary: acc s)
  case Nil
  { case 1 show ?case by simp }
  { case 2 show ?case by simp }
  { case 3 show ?case by simp }
next
  case (Cons sc scs)
  { case 1
    show ?case
      using Cons.IH(1) getVariablesFromReference_snd[of rt ad "scope_variablesReference sc" s]
      by (auto split: prod.splits sum.splits) }
  { case 2
    show ?case
      using Cons.IH(2) getVariablesFromReference_snd[of rt ad "scope_variablesReference sc" s]
      by (auto split: prod.splits sum.splits) }
  { case 3
    show ?case
      using Cons.IH(3) getVariablesFromReference_snd[of rt ad "scope_variablesReference sc" s]
      by (auto split: prod.splits sum.splits) }
qed

lemma collectVariables_answers:
  assumes "\<forall>sc\<in>set scs. \<forall>q. scope_variablesReference sc \<noteq> 0 \<longrightarrow>
             (\<exists>text b. respond ad \<lparr>seq = q, command = js ''variables'',
                                    arguments = VariablesArgs (scope_variablesReference sc)\<rparr>
                          = Reply True text (Some b)
                      \<and> variables b = Some (vars_of (scope_variablesReference sc)))"
  shows "fst (collectVariables rt ad scs acc s) =
           Inr (acc @ concat (map (\<lambda>r. map to_Variable (vars_of r)) (references scs)))
       \<and> transport (snd (collectVariables rt ad scs acc s)) =
           transport s @ concat (map (written rt (codelldbProcess s))
                                  (variables_requests (requestSeq s) (references scs)))
       \<and> requestSeq (snd (collectVariables rt ad scs acc s)) =
           requestSeq s + int (length (references scs))"
  using assms
proof (induction scs arbitrary: acc s)
  case Nil
  then show ?case by (simp add: references_def)
next
  case (Cons sc scs)
  have rest: "\<forall>sc\<in>set scs. \<forall>q. scope_variablesReference sc \<noteq> 0 \<longrightarrow>
             (\<exists>text b. respond ad \<lparr>seq = q, command = js ''variables'',
                                    arguments = VariablesArgs (scope_variablesReference sc)\<rparr>
                          = Reply True text (Some b)
                      \<and> variables b = Some (vars_of (scope_variablesReference sc)))"
    using Cons.prems by simp
  show ?case
  proof (cases "scope_variablesReference sc = 0")
    case True
    then show ?thesis
      using Cons.IH[OF rest, of acc s] by (simp add: references_def)
  next
    case False
    define r where "r = scope_variablesReference sc"
    obtain tx b where
      a: "respond ad \<lparr>seq = requestSeq s, command = js ''variables'', arguments = VariablesArgs r\<rparr>
            = Reply True tx (Some b)"
      and v: "variables b = Some (vars_of r)"
      using Cons.prems False unfolding r_def by (meson list.set_intros(1))
    define s1 where "s1 = snd (getVariablesFromReference rt ad r s)"
    have g: "getVariablesFromReference rt ad r s = (Inr (map to_Variable (vars_of r)), s1)"
      using a v
      by (simp add: prod_eq_iff s1_def getVariablesFromReference_fst
            await_request_outcome response_body_def)
    have f1: "codelldbProcess s1 = codelldbProcess s"
      "requestSeq s1 = requestSeq s + 1"
      "transport s1 = transport s @ written rt (codelldbProcess s)
          \<lparr>seq = requestSeq s, command = js ''variables'', arguments = VariablesArgs r\<rparr>"
      by (simp_all add: s1_def getVariablesFromReference_snd)
    have c: "collectVariables rt ad (sc # scs) acc s =
             collectVariables rt ad scs (acc @ map to_Variable (vars_of r)) s1"
      using False g by (simp add: r_def)
    have refs: "references (sc # scs) = r # references scs"
      using False by (simp add: references_def r_def)
    show ?thesis
      unfolding c refs
      using Cons.IH[OF rest, of "acc @ map to_Variable (vars_of r)" s1]
      by (simp add: f1)
  qed
qed

text \<open>
  C6. Let the session have a thread identifier, let the adapter answer the \<open>stackTrace\<close>
  request (for that thread, from frame 0, one level) with at least one frame, the
  \<open>scopes\<close> request for the first frame's identifier with the scopes \<open>scs\<close>, and each
  \<open>variables\<close> request for a non-zero reference \<open>r\<close> of these scopes with the variables
  \<open>vars_of r\<close>. An answer of the adapter is a successful response that reaches
  \<open>handleMessage\<close>: its frame is taken to have been delivered whole by the decoder.
  Then \<open>getVariables\<close> returns \<open>{success: true, data: ...}\<close> with no error, and the data
  are the variables of the non-zero references concatenated in the order of the scopes,
  each one copied field by field (name, value, type, variables reference). What it
  writes to the subprocess, if there is one, is in this order the frame of the
  \<open>stackTrace\<close> request, the frame of the \<open>scopes\<close> request, and the frame of one
  \<open>variables\<close> request per non-zero reference, with consecutive sequence numbers. A
  scope whose reference is zero adds no variable and no request. The witness is the
  scenario of the specification, and a second one with two scopes that have variables.
\<close>

theorem getVariables_exchanges:
  assumes th: "threadId s = Some tid" "tid \<noteq> 0"
    and st: "respond ad \<lparr>seq = requestSeq s, command = js ''stackTrace'',
                         arguments = StackTraceArgs tid 0 1\<rparr> = Reply True text1 (Some b1)"
    and fr: "stackFrames b1 = Some (frame0 # frames)"
    and sc: "respond ad \<lparr>seq = requestSeq s + 1, command = js ''scopes'',
                         arguments = ScopesArgs (frame_id frame0)\<rparr> = Reply True text2 (Some b2)"
    and scs: "scopes b2 = Some scs"
    and vs: "\<forall>sc\<in>set scs. \<forall>q. scope_variablesReference sc \<noteq> 0 \<longrightarrow>
             (\<exists>text b. respond ad \<lparr>seq = q, command = js ''variables'',
                                    arguments = VariablesArgs (scope_variablesReference sc)\<rparr>
                          = Reply True text (Some b)
                      \<and> variables b = Some (vars_of (scope_variablesReference sc)))"
  shows "fst (getVariables rt ad s) =
           ToolResponse True
             (Some (concat
               (map (\<lambda>r. map (\<lambda>v. \<lparr>var_name = dap_name v, var_value = dap_value v,
                                     var_type = dap_type v,
                                     var_variablesReference = dap_variablesReference v\<rparr>)
                            (vars_of r))
                  (filter (\<lambda>r. r \<noteq> 0) (map scope_variablesReference scs)))))
             None
       \<and> transport (snd (getVariables rt ad s)) =
           transport s @
           concat (map (\<lambda>r. case codelldbProcess s of
                               None \<Rightarrow> []
                             | Some process \<Rightarrow> [Write process (frame (JSON_stringify rt r))])
             (\<lparr>seq = requestSeq s, command = js ''stackTrace'', arguments = StackTraceArgs tid 0 1\<rparr>
              # \<lparr>seq = requestSeq s + 1, command = js ''scopes'',
                  arguments = ScopesArgs (frame_id frame0)\<rparr>
              # map (\<lambda>(i, r). \<lparr>seq = requestSeq s + 2 + int i, command = js ''variables'',
                                arguments = VariablesArgs r\<rparr>)
                  (enumerate 0 (filter (\<lambda>r. r \<noteq> 0) (map scope_variablesReference scs)))))"
proof -
  define s1 where "s1 = snd (await_request rt ad (js ''stackTrace'') (StackTraceArgs tid 0 1) s)"
  define s2 where "s2 = s1\<lparr>frameId := Some (frame_id frame0)\<rparr>"
  define s3 where "s3 = snd (await_request rt ad (js ''scopes'') (ScopesArgs (frame_id frame0)) s2)"
  define res where "res = collectVariables rt ad scs [] s3"
  have a1: "await_request rt ad (js ''stackTrace'') (StackTraceArgs tid 0 1) s =
            (Resolved (Response (requestSeq s) True text1 (Some b1)), s1)"
    using st by (simp add: prod_eq_iff await_request_outcome s1_def)
  have q2: "requestSeq s2 = requestSeq s + 1" "codelldbProcess s2 = codelldbProcess s"
    "transport s2 = transport s @ written rt (codelldbProcess s)
        \<lparr>seq = requestSeq s, command = js ''stackTrace'', arguments = StackTraceArgs tid 0 1\<rparr>"
    by (simp_all add: s2_def s1_def)
  have a2: "await_request rt ad (js ''scopes'') (ScopesArgs (frame_id frame0)) s2 =
            (Resolved (Response (requestSeq s + 1) True text2 (Some b2)), s3)"
    using sc by (simp add: prod_eq_iff await_request_outcome s3_def q2)
  have q3: "requestSeq s3 = requestSeq s + 2" "codelldbProcess s3 = codelldbProcess s"
    "transport s3 = transport s2 @ written rt (codelldbProcess s)
        \<lparr>seq = requestSeq s + 1, command = js ''scopes'', arguments = ScopesArgs (frame_id frame0)\<rparr>"
    by (simp_all add: s3_def q2)
  have c: "fst res = Inr (concat (map (\<lambda>r. map to_Variable (vars_of r)) (references scs)))"
    "transport (snd res) =
       transport s3 @ concat (map (written rt (codelldbProcess s))
                               (variables_requests (requestSeq s + 2) (references scs)))"
    using collectVariables_answers[OF vs, of rt "[]" s3] by (simp_all add: res_def q3)
  have g: "getVariables rt ad s =
           (succeeded_with (concat (map (\<lambda>r. map to_Variable (vars_of r)) (references scs))),
            snd res)"
    using th fr scs c(1)
    by (cases res)
       (simp add: getVariables_def a1 a2 response_body_def s2_def[symmetric] res_def[symmetric])
  have tv: "to_Variable = (\<lambda>v. \<lparr>var_name = dap_name v, var_value = dap_value v,
                                var_type = dap_type v,
                                var_variablesReference = dap_variablesReference v\<rparr>)"
    by (rule ext) (simp add: to_Variable_def)
  have wr: "written rt (codelldbProcess s) =
            (\<lambda>r. case codelldbProcess s of
                    None \<Rightarrow> []
                  | Some process \<Rightarrow> [Write process (frame (JSON_stringify rt r))])"
    by (rule ext) (simp add: written_def)
  have "fst (getVariables rt ad s) =
           succeeded_with (concat (map (\<lambda>r. map to_Variable (vars_of r)) (references scs)))
       \<and> transport (snd (getVariables rt ad s)) =
           transport s @
           concat (map (written rt (codelldbProcess s))
             (\<lparr>seq = requestSeq s, command = js ''stackTrace'', arguments = StackTraceArgs tid 0 1\<rparr>
              # \<lparr>seq = requestSeq s + 1, command = js ''scopes'',
                  arguments = ScopesArgs (frame_id frame0)\<rparr>
              # variables_requests (requestSeq s + 2) (references scs)))"
    by (simp add: g c(2) q3 q2)
  then show ?thesis
    unfolding tv wr succeeded_with_def references_def variables_requests_def .
qed

theorem getVariables_exchanges_witness:
  "\<forall>rt.
     threadId (stopped_at 7) = Some 7 \<and> (7::int) \<noteq> 0
     \<and> fst (getVariables rt variables_scenario (stopped_at 7)) =
         ToolResponse True
           (Some [\<lparr>var_name = js ''x'', var_value = js ''42'', var_type = Some (js ''i32''),
                   var_variablesReference = None\<rparr>])
           None
     \<and> transport (snd (getVariables rt variables_scenario (stopped_at 7))) =
         [Write 1 (frame (JSON_stringify rt
            \<lparr>seq = 1, command = js ''stackTrace'', arguments = StackTraceArgs 7 0 1\<rparr>)),
          Write 1 (frame (JSON_stringify rt
            \<lparr>seq = 2, command = js ''scopes'', arguments = ScopesArgs 1\<rparr>)),
          Write 1 (frame (JSON_stringify rt
            \<lparr>seq = 3, command = js ''variables'', arguments = VariablesArgs 100\<rparr>))]
     \<and> fst (getVariables rt two_scopes_scenario (stopped_at 7)) =
         ToolResponse True
           (Some [\<lparr>var_name = js ''x'', var_value = js ''42'', var_type = Some (js ''i32''),
                   var_variablesReference = None\<rparr>,
                  \<lparr>var_name = js ''v'', var_value = js ''{...}'', var_type = None,
                   var_variablesReference = Some 201\<rparr>])
           None
     \<and> transport (snd (getVariables rt two_scopes_scenario (stopped_at 7))) =
         [Write 1 (frame (JSON_stringify rt
            \<lparr>seq = 1, command = js ''stackTrace'', arguments = StackTraceArgs 7 0 1\<rparr>)),
          Write 1 (frame (JSON_stringify rt
            \<lparr>seq = 2, command = js ''scopes'', arguments = ScopesArgs 1\<rparr>)),
          Write 1 (frame (JSON_stringify rt
            \<lparr>seq = 3, command = js ''variables'', arguments = VariablesArgs 100\<rparr>)),
          Write 1 (frame (JSON_stringify rt
            \<lparr>seq = 4, command = js ''variables'', arguments = VariablesArgs 200\<rparr>))]"
proof
  fix rt
  define b1 where "b1 = \<lparr>stackFrames = Some [\<lparr>frame_id = 1, frame_name = js ''main''\<rparr>], scopes = None,
                      variables = None, breakpoints = None, body_threadId = None\<rparr>"
  define scs where "scs = [\<lparr>scope_name = js ''Locals'', scope_variablesReference = 100\<rparr>,
                           \<lparr>scope_name = js ''Registers'', scope_variablesReference = 0\<rparr>]"
  define scs' where "scs' = [\<lparr>scope_name = js ''Locals'', scope_variablesReference = 100\<rparr>,
                            \<lparr>scope_name = js ''Registers'', scope_variablesReference = 0\<rparr>,
                            \<lparr>scope_name = js ''Statics'', scope_variablesReference = 200\<rparr>]"
  define b2 where "b2 = \<lparr>stackFrames = None, scopes = Some scs,
                      variables = None, breakpoints = None, body_threadId = None\<rparr>"
  define b2' where "b2' = \<lparr>stackFrames = None, scopes = Some scs',
                      variables = None, breakpoints = None, body_threadId = None\<rparr>"
  define vars_of :: "int \<Rightarrow> DapVariable list" where
    "vars_of = (\<lambda>r. if r = 100
                    then [\<lparr>dap_name = js ''x'', dap_value = js ''42'',
                           dap_type = Some (js ''i32''), dap_variablesReference = None\<rparr>]
                    else [\<lparr>dap_name = js ''v'', dap_value = js ''{...}'',
                           dap_type = None, dap_variablesReference = Some 201\<rparr>])"
  have h1: "threadId (stopped_at 7) = Some 7" and h2: "(7::int) \<noteq> 0"
    by (simp_all add: stopped_at_def)
  have h3: "respond variables_scenario \<lparr>seq = requestSeq (stopped_at 7), command = js ''stackTrace'',
                         arguments = StackTraceArgs 7 0 1\<rparr> = Reply True None (Some b1)"
    by (simp add: variables_scenario_def b1_def)
  have h3': "respond two_scopes_scenario \<lparr>seq = requestSeq (stopped_at 7), command = js ''stackTrace'',
                         arguments = StackTraceArgs 7 0 1\<rparr> = Reply True None (Some b1)"
    by (simp add: two_scopes_scenario_def b1_def)
  have h4: "stackFrames b1 = Some (\<lparr>frame_id = 1, frame_name = js ''main''\<rparr> # [])"
    by (simp add: b1_def)
  have h5: "respond variables_scenario \<lparr>seq = requestSeq (stopped_at 7) + 1, command = js ''scopes'',
                         arguments = ScopesArgs (frame_id \<lparr>frame_id = 1, frame_name = js ''main''\<rparr>)\<rparr>
              = Reply True None (Some b2)"
    by (simp add: variables_scenario_def b2_def scs_def)
  have h5': "respond two_scopes_scenario \<lparr>seq = requestSeq (stopped_at 7) + 1, command = js ''scopes'',
                         arguments = ScopesArgs (frame_id \<lparr>frame_id = 1, frame_name = js ''main''\<rparr>)\<rparr>
              = Reply True None (Some b2')"
    by (simp add: two_scopes_scenario_def b2'_def scs'_def)
  have h6: "scopes b2 = Some scs" and h6': "scopes b2' = Some scs'"
    by (simp_all add: b2_def b2'_def)
  have h7: "\<forall>sc\<in>set scs. \<forall>q. scope_variablesReference sc \<noteq> 0 \<longrightarrow>
             (\<exists>text b. respond variables_scenario \<lparr>seq = q, command = js ''variables'',
                                    arguments = VariablesArgs (scope_variablesReference sc)\<rparr>
                          = Reply True text (Some b)
                      \<and> variables b = Some (vars_of (scope_variablesReference sc)))"
    by (simp add: scs_def variables_scenario_def vars_of_def)
  have h7': "\<forall>sc\<in>set scs'. \<forall>q. scope_variablesReference sc \<noteq> 0 \<longrightarrow>
             (\<exists>text b. respond two_scopes_scenario \<lparr>seq = q, command = js ''variables'',
                                    arguments = VariablesArgs (scope_variablesReference sc)\<rparr>
                          = Reply True text (Some b)
                      \<and> variables b = Some (vars_of (scope_variablesReference sc)))"
    by (simp add: scs'_def two_scopes_scenario_def vars_of_def)
  have one: "fst (getVariables rt variables_scenario (stopped_at 7)) =
         ToolResponse True
           (Some [\<lparr>var_name = js ''x'', var_value = js ''42'', var_type = Some (js ''i32''),
                   var_variablesReference = None\<rparr>])
           None
     \<and> transport (snd (getVariables rt variables_scenario (stopped_at 7))) =
         [Write 1 (frame (JSON_stringify rt
            \<lparr>seq = 1, command = js ''stackTrace'', arguments = StackTraceArgs 7 0 1\<rparr>)),
          Write 1 (frame (JSON_stringify rt
            \<lparr>seq = 2, command = js ''scopes'', arguments = ScopesArgs 1\<rparr>)),
          Write 1 (frame (JSON_stringify rt
            \<lparr>seq = 3, command = js ''variables'', arguments = VariablesArgs 100\<rparr>))]"
    using getVariables_exchanges [OF h1 h2 h3 h4 h5 h6 h7, of rt]
    by (simp add: scs_def vars_of_def stopped_at_def initial_def)
  have two: "fst (getVariables rt two_scopes_scenario (stopped_at 7)) =
         ToolResponse True
           (Some [\<lparr>var_name = js ''x'', var_value = js ''42'', var_type = Some (js ''i32''),
                   var_variablesReference = None\<rparr>,
                  \<lparr>var_name = js ''v'', var_value = js ''{...}'', var_type = None,
                   var_variablesReference = Some 201\<rparr>])
           None
     \<and> transport (snd (getVariables rt two_scopes_scenario (stopped_at 7))) =
         [Write 1 (frame (JSON_stringify rt
            \<lparr>seq = 1, command = js ''stackTrace'', arguments = StackTraceArgs 7 0 1\<rparr>)),
          Write 1 (frame (JSON_stringify rt
            \<lparr>seq = 2, command = js ''scopes'', arguments = ScopesArgs 1\<rparr>)),
          Write 1 (frame (JSON_stringify rt
            \<lparr>seq = 3, command = js ''variables'', arguments = VariablesArgs 100\<rparr>)),
          Write 1 (frame (JSON_stringify rt
            \<lparr>seq = 4, command = js ''variables'', arguments = VariablesArgs 200\<rparr>))]"
    using getVariables_exchanges [OF h1 h2 h3' h4 h5' h6' h7', of rt]
    by (simp add: scs'_def vars_of_def stopped_at_def initial_def)
  from h1 h2 one two
  show "threadId (stopped_at 7) = Some 7 \<and> (7::int) \<noteq> 0
     \<and> fst (getVariables rt variables_scenario (stopped_at 7)) =
         ToolResponse True
           (Some [\<lparr>var_name = js ''x'', var_value = js ''42'', var_type = Some (js ''i32''),
                   var_variablesReference = None\<rparr>])
           None
     \<and> transport (snd (getVariables rt variables_scenario (stopped_at 7))) =
         [Write 1 (frame (JSON_stringify rt
            \<lparr>seq = 1, command = js ''stackTrace'', arguments = StackTraceArgs 7 0 1\<rparr>)),
          Write 1 (frame (JSON_stringify rt
            \<lparr>seq = 2, command = js ''scopes'', arguments = ScopesArgs 1\<rparr>)),
          Write 1 (frame (JSON_stringify rt
            \<lparr>seq = 3, command = js ''variables'', arguments = VariablesArgs 100\<rparr>))]
     \<and> fst (getVariables rt two_scopes_scenario (stopped_at 7)) =
         ToolResponse True
           (Some [\<lparr>var_name = js ''x'', var_value = js ''42'', var_type = Some (js ''i32''),
                   var_variablesReference = None\<rparr>,
                  \<lparr>var_name = js ''v'', var_value = js ''{...}'', var_type = None,
                   var_variablesReference = Some 201\<rparr>])
           None
     \<and> transport (snd (getVariables rt two_scopes_scenario (stopped_at 7))) =
         [Write 1 (frame (JSON_stringify rt
            \<lparr>seq = 1, command = js ''stackTrace'', arguments = StackTraceArgs 7 0 1\<rparr>)),
          Write 1 (frame (JSON_stringify rt
            \<lparr>seq = 2, command = js ''scopes'', arguments = ScopesArgs 1\<rparr>)),
          Write 1 (frame (JSON_stringify rt
            \<lparr>seq = 3, command = js ''variables'', arguments = VariablesArgs 100\<rparr>)),
          Write 1 (frame (JSON_stringify rt
            \<lparr>seq = 4, command = js ''variables'', arguments = VariablesArgs 200\<rparr>))]"
    by blast
qed



section \<open>Setting a breakpoint\<close>

text \<open>
  C7. When the adapter answers the \<open>setBreakpoints\<close> request with the breakpoints \<open>bps\<close>
  (a successful response that reaches \<open>handleMessage\<close>), \<open>setBreakpoint\<close> returns
  \<open>{success: true, data: ...}\<close> with no error, and the data are one descriptor per
  breakpoint, in the same order; the descriptor at position \<open>i\<close> has the requested file,
  the adapter's identifier or else \<open>i\<close>, the adapter's line or else the requested line,
  and the adapter's verified flag or else false. The witness is the scenario of the
  specification: the answer \<open>{breakpoints: [{verified: true, line: 10}]}\<close> to a request
  for \<open>src/main.rs\<close>, line 10, gives exactly
  \<open>{id: 0, file: "src/main.rs", line: 10, verified: true}\<close>.
\<close>

theorem setBreakpoint_maps_breakpoints:
  assumes "respond ad \<lparr>seq = requestSeq s, command = js ''setBreakpoints'',
                     arguments = SetBreakpointsArgs (config_file config) [config_line config]\<rparr>
             = Reply True text (Some b)"
    and "breakpoints b = Some bps"
  shows "\<exists>infos.
           fst (setBreakpoint rt ad config s) = ToolResponse True (Some infos) None
         \<and> length infos = length bps
         \<and> (\<forall>i < length bps.
               infos ! i =
                 \<lparr>bp_id = (case dap_id (bps ! i) of None \<Rightarrow> int i | Some n \<Rightarrow> n),
                  bp_file = config_file config,
                  bp_line = (case dap_line (bps ! i) of None \<Rightarrow> config_line config | Some l \<Rightarrow> l),
                  bp_verified = (case dap_verified (bps ! i) of None \<Rightarrow> False | Some v \<Rightarrow> v)\<rparr>)"
proof -
  define infos where
    "infos = map (\<lambda>(index, bp). to_BreakpointInfo config index bp) (enumerate 0 bps)"
  have r: "fst (setBreakpoint rt ad config s) = ToolResponse True (Some infos) None"
    using assms
    by (simp add: setBreakpoint_fst await_request_outcome response_body_def infos_def
        succeeded_with_def)
  have n: "infos ! i = to_BreakpointInfo config i (bps ! i)" if "i < length bps" for i
    using that by (simp add: infos_def nth_enumerate_eq)
  have "length infos = length bps"
    by (simp add: infos_def)
  with r n show ?thesis
    by (intro exI[of _ infos]) (simp add: to_BreakpointInfo_def)
qed

theorem setBreakpoint_maps_breakpoints_witness:
  "\<forall>rt.
     respond breakpoint_scenario
        \<lparr>seq = requestSeq launched, command = js ''setBreakpoints'',
         arguments = SetBreakpointsArgs (js ''src/main.rs'') [10]\<rparr>
       = Reply True None
           (Some \<lparr>stackFrames = None, scopes = None, variables = None,
                  breakpoints = Some [\<lparr>dap_id = None, dap_verified = Some True, dap_line = Some 10\<rparr>],
                  body_threadId = None\<rparr>)
     \<and> fst (setBreakpoint rt breakpoint_scenario
                  \<lparr>config_file = js ''src/main.rs'', config_line = 10\<rparr> launched)
         = ToolResponse True
             (Some [\<lparr>bp_id = 0, bp_file = js ''src/main.rs'', bp_line = 10, bp_verified = True\<rparr>])
             None"
proof
  fix rt
  define b where "b = \<lparr>stackFrames = None, scopes = None, variables = None,
                  breakpoints = Some [\<lparr>dap_id = None, dap_verified = Some True, dap_line = Some 10\<rparr>],
                  body_threadId = None\<rparr>"
  define config where "config = \<lparr>config_file = js ''src/main.rs'', config_line = 10\<rparr>"
  have h1: "respond breakpoint_scenario
        \<lparr>seq = requestSeq launched, command = js ''setBreakpoints'',
         arguments = SetBreakpointsArgs (config_file config) [config_line config]\<rparr>
       = Reply True None (Some b)"
    by (simp add: breakpoint_scenario_def b_def)
  have h2: "breakpoints b = Some [\<lparr>dap_id = None, dap_verified = Some True, dap_line = Some 10\<rparr>]"
    by (simp add: b_def)
  from setBreakpoint_maps_breakpoints [OF h1 h2, of rt]
  obtain infos where i: "fst (setBreakpoint rt breakpoint_scenario config launched)
                           = ToolResponse True (Some infos) None"
    and l: "length infos = 1"
    and e: "infos ! 0 = \<lparr>bp_id = 0, bp_file = js ''src/main.rs'', bp_line = 10, bp_verified = True\<rparr>"
    by (auto simp: config_def)
  from l e have "infos = [\<lparr>bp_id = 0, bp_file = js ''src/main.rs'', bp_line = 10, bp_verified = True\<rparr>]"
    by (cases infos) simp_all
  with i h1 show "respond breakpoint_scenario
        \<lparr>seq = requestSeq launched, command = js ''setBreakpoints'',
         arguments = SetBreakpointsArgs (js ''src/main.rs'') [10]\<rparr>
       = Reply True None
           (Some \<lparr>stackFrames = None, scopes = None, variables = None,
                  breakpoints = Some [\<lparr>dap_id = None, dap_verified = Some True, dap_line = Some 10\<rparr>],
                  body_threadId = None\<rparr>)
     \<and> fst (setBreakpoint rt breakpoint_scenario
                  \<lparr>config_file = js ''src/main.rs'', config_line = 10\<rparr> launched)
         = ToolResponse True
             (Some [\<lparr>bp_id = 0, bp_file = js ''src/main.rs'', bp_line = 10, bp_verified = True\<rparr>])
             None"
    unfolding b_def config_def by simp
qed

section \<open>Terminating\<close>


section \<open>The stored frame identifier\<close>

lemma handleMessage_frameId_update:
  "handleMessage m (s\<lparr>frameId := x\<rparr>) = (handleMessage m s)\<lparr>frameId := x\<rparr>"
  by (simp add: handleMessage_def resolve_def reject_def emit_def Let_def
      split: message.splits option.splits)

lemma onTimeout_frameId_update:
  "onTimeout t (s\<lparr>frameId := x\<rparr>) = (onTimeout t s)\<lparr>frameId := x\<rparr>"
  by (simp add: onTimeout_def reject_def)

lemma fold_onTimeout_frameId_update:
  "fold onTimeout ts (s\<lparr>frameId := x\<rparr>) = (fold onTimeout ts s)\<lparr>frameId := x\<rparr>"
  by (induction ts arbitrary: s) (simp_all add: onTimeout_frameId_update)

lemma advance_frameId_update:
  "advance dt (s\<lparr>frameId := x\<rparr>) = (advance dt s)\<lparr>frameId := x\<rparr>"
proof -
  define due where "due = filter (\<lambda>t. deadline t \<le> now s + dt) (timers s)"
  define rest where "rest = filter (\<lambda>t. \<not> deadline t \<le> now s + dt) (timers s)"
  have e: "(s\<lparr>frameId := x\<rparr>)\<lparr>now := now s + dt, timers := rest\<rparr> =
           (s\<lparr>now := now s + dt, timers := rest\<rparr>)\<lparr>frameId := x\<rparr>"
    by simp
  have "advance dt (s\<lparr>frameId := x\<rparr>) =
          fold onTimeout due ((s\<lparr>frameId := x\<rparr>)\<lparr>now := now s + dt, timers := rest\<rparr>)"
    by (simp add: advance_def Let_def due_def rest_def)
  also have "\<dots> = (fold onTimeout due (s\<lparr>now := now s + dt, timers := rest\<rparr>))\<lparr>frameId := x\<rparr>"
    unfolding e by (rule fold_onTimeout_frameId_update)
  also have "\<dots> = (advance dt s)\<lparr>frameId := x\<rparr>"
    by (simp add: advance_def Let_def due_def rest_def)
  finally show ?thesis .
qed

lemma sendRequest_frameId_update:
  "sendRequest rt cmd args (s\<lparr>frameId := x\<rparr>) =
     (fst (sendRequest rt cmd args s), (snd (sendRequest rt cmd args s))\<lparr>frameId := x\<rparr>)"
  by (simp add: sendRequest_def Let_def split: option.splits)

lemma await_request_frameId_update:
  "await_request rt ad cmd args (s\<lparr>frameId := x\<rparr>) =
     (fst (await_request rt ad cmd args s), (snd (await_request rt ad cmd args s))\<lparr>frameId := x\<rparr>)"
  by (simp add: await_request_def Let_def sendRequest_frameId_update handleMessage_frameId_update
      advance_frameId_update split: reaction.splits)

lemma getVariablesFromReference_frameId_update:
  "getVariablesFromReference rt ad r (s\<lparr>frameId := x\<rparr>) =
     (fst (getVariablesFromReference rt ad r s),
      (snd (getVariablesFromReference rt ad r s))\<lparr>frameId := x\<rparr>)"
  by (simp add: getVariablesFromReference_def await_request_frameId_update
      split: prod.splits outcome.splits option.splits)

lemma collectVariables_frameId_update:
  "collectVariables rt ad scs acc (s\<lparr>frameId := x\<rparr>) =
     (fst (collectVariables rt ad scs acc s), (snd (collectVariables rt ad scs acc s))\<lparr>frameId := x\<rparr>)"
proof (induction scs arbitrary: acc s)
  case Nil
  show ?case by simp
next
  case (Cons sc scs)
  show ?case
    by (simp add: getVariablesFromReference_frameId_update Cons.IH split: prod.splits sum.splits)
qed

lemma continue_frameId_update:
  "continue rt ad (s\<lparr>frameId := x\<rparr>) =
     (fst (continue rt ad s), (snd (continue rt ad s))\<lparr>frameId := x\<rparr>)"
  by (simp add: continue_def await_request_frameId_update handleMessage_frameId_update
      split: prod.splits outcome.splits option.splits)

lemma stepOver_frameId_update:
  "stepOver rt ad (s\<lparr>frameId := x\<rparr>) =
     (fst (stepOver rt ad s), (snd (stepOver rt ad s))\<lparr>frameId := x\<rparr>)"
  by (simp add: stepOver_def await_request_frameId_update handleMessage_frameId_update
      split: prod.splits outcome.splits option.splits)

lemma setBreakpoint_frameId_update:
  "setBreakpoint rt ad config (s\<lparr>frameId := x\<rparr>) =
     (fst (setBreakpoint rt ad config s), (snd (setBreakpoint rt ad config s))\<lparr>frameId := x\<rparr>)"
  by (simp add: setBreakpoint_def await_request_frameId_update
      split: prod.splits outcome.splits option.splits)

lemma terminate_frameId_update:
  "terminate rt ad (s\<lparr>frameId := x\<rparr>) =
     (fst (terminate rt ad s), (snd (terminate rt ad s))\<lparr>frameId := x\<rparr>)"
  by (simp add: terminate_def Let_def kill_def await_request_frameId_update
      split: prod.splits outcome.splits option.splits)

lemma getVariables_frameId_update:
  "fst (getVariables rt ad (s\<lparr>frameId := x\<rparr>)) = fst (getVariables rt ad s)
   \<and> (snd (getVariables rt ad (s\<lparr>frameId := x\<rparr>)))\<lparr>frameId := y\<rparr>
       = (snd (getVariables rt ad s))\<lparr>frameId := y\<rparr>"
  by (simp add: getVariables_def Let_def await_request_frameId_update
      collectVariables_frameId_update
      split: prod.splits outcome.splits option.splits list.splits sum.splits)

lemma getVariables_stores_frameId:
  assumes th: "threadId s = Some tid" "tid \<noteq> 0"
    and st: "respond ad \<lparr>seq = requestSeq s, command = js ''stackTrace'',
                         arguments = StackTraceArgs tid 0 1\<rparr> = Reply True text1 (Some b1)"
    and fr: "stackFrames b1 = Some (frame0 # frames)"
  shows "frameId (snd (getVariables rt ad s)) = Some (frame_id frame0)"
proof -
  define s1 where "s1 = snd (await_request rt ad (js ''stackTrace'') (StackTraceArgs tid 0 1) s)"
  define s2 where "s2 = s1\<lparr>frameId := Some (frame_id frame0)\<rparr>"
  have a1: "await_request rt ad (js ''stackTrace'') (StackTraceArgs tid 0 1) s =
            (Resolved (Response (requestSeq s) True text1 (Some b1)), s1)"
    using st by (simp add: prod_eq_iff await_request_outcome s1_def)
  obtain o3 s3 where a2: "await_request rt ad (js ''scopes'') (ScopesArgs (frame_id frame0)) s2 = (o3, s3)"
    by (cases "await_request rt ad (js ''scopes'') (ScopesArgs (frame_id frame0)) s2") auto
  have "frameId (snd (o3, s3)) = frameId s2"
    unfolding a2[symmetric] by simp
  then have f3: "frameId s3 = Some (frame_id frame0)"
    by (simp add: s2_def)
  have f4: "frameId (snd (collectVariables rt ad scs [] s3)) = Some (frame_id frame0)" for scs
    by (simp add: f3)
  have g: "getVariables rt ad s =
           (case o3 of
              Rejected e \<Rightarrow> (failed e, s3)
            | Resolved scopesResponse \<Rightarrow>
                (case response_body scopesResponse of
                   None \<Rightarrow> (failed (cannot_read (js ''scopes'')), s3)
                 | Some b2 \<Rightarrow>
                     (case collectVariables rt ad
                             (case scopes b2 of None \<Rightarrow> [] | Some scs \<Rightarrow> scs) [] s3 of
                        (Inl e, s4) \<Rightarrow> (failed e, s4)
                      | (Inr allVariables, s4) \<Rightarrow> (succeeded_with allVariables, s4))))"
    using th fr
    by (simp add: getVariables_def a1 response_body_def s2_def[symmetric] a2)
  show ?thesis
  proof (cases o3)
    case (Rejected e)
    then show ?thesis by (simp add: g f3)
  next
    case (Resolved r)
    show ?thesis
    proof (cases "response_body r")
      case None
      with Resolved show ?thesis by (simp add: g f3)
    next
      case (Some b2)
      define scs where "scs = (case scopes b2 of None \<Rightarrow> [] | Some scs \<Rightarrow> scs)"
      obtain r4 s4 where c: "collectVariables rt ad scs [] s3 = (r4, s4)"
        by (cases "collectVariables rt ad scs [] s3") auto
      with f4[of scs] have "frameId s4 = Some (frame_id frame0)" by simp
      with Resolved Some c show ?thesis
        by (cases r4) (simp_all add: g scs_def[symmetric])
    qed
  qed
qed

text \<open>
  C9. The claim: the frame identifier captured by an inspection is not kept in the
  session's state after \<open>getVariables\<close> returns.

  \<open>getVariables\<close> assigns it to the field \<open>frameId\<close> and nothing clears that field: after
  the inspection of the scenario, started with no frame identifier, the field holds 1.
\<close>

theorem frameId_persists_after_getVariables:
  "\<forall>rt. frameId (stopped_at 7) = None
      \<and> frameId (snd (getVariables rt variables_scenario (stopped_at 7))) = Some 1"
proof
  fix rt
  define b1 where "b1 = \<lparr>stackFrames = Some [\<lparr>frame_id = 1, frame_name = js ''main''\<rparr>], scopes = None,
                      variables = None, breakpoints = None, body_threadId = None\<rparr>"
  have h1: "threadId (stopped_at 7) = Some 7" and h2: "(7::int) \<noteq> 0"
    by (simp_all add: stopped_at_def)
  have h3: "respond variables_scenario \<lparr>seq = requestSeq (stopped_at 7), command = js ''stackTrace'',
                         arguments = StackTraceArgs 7 0 1\<rparr> = Reply True None (Some b1)"
    by (simp add: variables_scenario_def b1_def)
  have h4: "stackFrames b1 = Some (\<lparr>frame_id = 1, frame_name = js ''main''\<rparr> # [])"
    by (simp add: b1_def)
  have "frameId (snd (getVariables rt variables_scenario (stopped_at 7)))
          = Some (frame_id \<lparr>frame_id = 1, frame_name = js ''main''\<rparr>)"
    by (rule getVariables_stores_frameId[OF h1 h2 h3 h4])
  then show "frameId (stopped_at 7) = None
      \<and> frameId (snd (getVariables rt variables_scenario (stopped_at 7))) = Some 1"
    by (simp add: stopped_at_def initial_def)
qed

text \<open>
  C9, amended. When the \<open>stackTrace\<close> request is answered with at least one frame, the
  field \<open>frameId\<close> holds that frame's identifier after \<open>getVariables\<close> returns. The stored
  value is never read back: for every operation, what it returns and every other
  component of the state it leaves are the same whatever \<open>frameId\<close> held before the
  call; \<open>getVariables\<close> itself uses only the identifier it has just captured.
\<close>

theorem frameId_stored_but_never_read:
  assumes "threadId s = Some tid" and "tid \<noteq> 0"
    and "respond ad \<lparr>seq = requestSeq s, command = js ''stackTrace'',
                     arguments = StackTraceArgs tid 0 1\<rparr> = Reply True text1 (Some b1)"
    and "stackFrames b1 = Some (frame0 # frames)"
  shows "frameId (snd (getVariables rt ad s)) = Some (frame_id frame0)
       \<and> fst (getVariables rt ad' (t\<lparr>frameId := x\<rparr>)) = fst (getVariables rt ad' t)
       \<and> (snd (getVariables rt ad' (t\<lparr>frameId := x\<rparr>)))\<lparr>frameId := y\<rparr>
           = (snd (getVariables rt ad' t))\<lparr>frameId := y\<rparr>
       \<and> continue rt ad' (t\<lparr>frameId := x\<rparr>)
           = (fst (continue rt ad' t), (snd (continue rt ad' t))\<lparr>frameId := x\<rparr>)
       \<and> stepOver rt ad' (t\<lparr>frameId := x\<rparr>)
           = (fst (stepOver rt ad' t), (snd (stepOver rt ad' t))\<lparr>frameId := x\<rparr>)
       \<and> setBreakpoint rt ad' config (t\<lparr>frameId := x\<rparr>)
           = (fst (setBreakpoint rt ad' config t), (snd (setBreakpoint rt ad' config t))\<lparr>frameId := x\<rparr>)
       \<and> terminate rt ad' (t\<lparr>frameId := x\<rparr>)
           = (fst (terminate rt ad' t), (snd (terminate rt ad' t))\<lparr>frameId := x\<rparr>)"
  using getVariables_stores_frameId[OF assms]
    getVariables_frameId_update[where rt = rt and ad = ad' and s = t and x = x and y = y]
    continue_frameId_update[where rt = rt and ad = ad' and s = t and x = x]
    stepOver_frameId_update[where rt = rt and ad = ad' and s = t and x = x]
    setBreakpoint_frameId_update[where rt = rt and ad = ad' and config = config and s = t and x = x]
    terminate_frameId_update[where rt = rt and ad = ad' and s = t and x = x]
  by blast

theorem frameId_stored_but_never_read_witness:
  "\<forall>rt.
     threadId (stopped_at 7) = Some 7 \<and> (7::int) \<noteq> 0
   \<and> frameId (snd (getVariables rt variables_scenario (stopped_at 7))) = Some 1
   \<and> fst (getVariables rt variables_scenario ((stopped_at 7)\<lparr>frameId := Some 99\<rparr>))
       = fst (getVariables rt variables_scenario (stopped_at 7))
   \<and> fst (continue rt variables_scenario ((stopped_at 7)\<lparr>frameId := Some 99\<rparr>))
       = fst (continue rt variables_scenario (stopped_at 7))
   \<and> fst (terminate rt variables_scenario ((stopped_at 7)\<lparr>frameId := Some 99\<rparr>))
       = fst (terminate rt variables_scenario (stopped_at 7))"
proof
  fix rt
  define b1 where "b1 = \<lparr>stackFrames = Some [\<lparr>frame_id = 1, frame_name = js ''main''\<rparr>], scopes = None,
                      variables = None, breakpoints = None, body_threadId = None\<rparr>"
  have h1: "threadId (stopped_at 7) = Some 7" and h2: "(7::int) \<noteq> 0"
    by (simp_all add: stopped_at_def)
  have h3: "respond variables_scenario \<lparr>seq = requestSeq (stopped_at 7), command = js ''stackTrace'',
                         arguments = StackTraceArgs 7 0 1\<rparr> = Reply True None (Some b1)"
    by (simp add: variables_scenario_def b1_def)
  have h4: "stackFrames b1 = Some (\<lparr>frame_id = 1, frame_name = js ''main''\<rparr> # [])"
    by (simp add: b1_def)
  from frameId_stored_but_never_read [OF h1 h2 h3 h4, where rt = rt and ad' = variables_scenario
      and t = "stopped_at 7" and x = "Some 99"]
  show "threadId (stopped_at 7) = Some 7 \<and> (7::int) \<noteq> 0
   \<and> frameId (snd (getVariables rt variables_scenario (stopped_at 7))) = Some 1
   \<and> fst (getVariables rt variables_scenario ((stopped_at 7)\<lparr>frameId := Some 99\<rparr>))
       = fst (getVariables rt variables_scenario (stopped_at 7))
   \<and> fst (continue rt variables_scenario ((stopped_at 7)\<lparr>frameId := Some 99\<rparr>))
       = fst (continue rt variables_scenario (stopped_at 7))
   \<and> fst (terminate rt variables_scenario ((stopped_at 7)\<lparr>frameId := Some 99\<rparr>))
       = fst (terminate rt variables_scenario (stopped_at 7))"
    using h1 h2 by simp
qed

end
